theory Spec2Isabelle
  imports Complex_Main "HOL-Library.AList"
begin

section \<open>The outside world: wall clock and pseudo-random generator\<close>

text \<open>
  The program reads two external sources: the local wall clock (\<^verbatim>\<open>time.strftime\<close>) and the
  pseudo-random generator (\<^verbatim>\<open>random.random\<close>, \<^verbatim>\<open>random.randint\<close>, \<^verbatim>\<open>random.choice\<close>).
  Both are modelled as arbitrary sequences of raw readings together with a cursor counting
  the readings consumed so far. The \<open>k\<close>-th clock reading is the local time in seconds.
\<close>

record world =
  clock :: "nat \<Rightarrow> nat"
  clock_reads :: nat
  random_src :: "nat \<Rightarrow> nat"
  random_reads :: nat

datatype py_error = IndexError

subsection \<open>Number formatting\<close>

definition digit_char :: "nat \<Rightarrow> char" where
  "digit_char n = ''0123456789abcdef'' ! n"

text \<open>Decimal digits of a non-negative integer, as \<^verbatim>\<open>str(i)\<close> and \<^verbatim>\<open>%d\<close> print them.\<close>

fun format_d :: "nat \<Rightarrow> string" where
  "format_d n = (if n < 10 then [digit_char n] else format_d (n div 10) @ [digit_char (n mod 10)])"

text \<open>Lowercase hexadecimal digits of a non-negative integer (\<^verbatim>\<open>%x\<close>).\<close>

fun format_x :: "nat \<Rightarrow> string" where
  "format_x n = (if n < 16 then [digit_char n] else format_x (n div 16) @ [digit_char (n mod 16)])"

declare format_d.simps [simp del] format_x.simps [simp del]

text \<open>The \<^verbatim>\<open>02\<close> flag and width: pad with zeros on the left up to two characters.\<close>

definition zero_pad2 :: "string \<Rightarrow> string" where
  "zero_pad2 s = replicate (2 - length s) (CHR ''0'') @ s"

definition format_02d :: "nat \<Rightarrow> string" where
  "format_02d n = zero_pad2 (format_d n)"

definition format_02x :: "nat \<Rightarrow> string" where
  "format_02x n = zero_pad2 (format_x n)"

subsection \<open>Clock\<close>

text \<open>\<^verbatim>\<open>%H:%M:%S\<close> of a local time given in seconds.\<close>

definition hms :: "nat \<Rightarrow> string" where
  "hms t = format_02d (t div 3600 mod 24) @ '':'' @ format_02d (t div 60 mod 60) @ '':'' @
           format_02d (t mod 60)"

text \<open>The time stamp of the current reading, and the world after one more reading.\<close>

definition now :: "world \<Rightarrow> string" where
  "now w = hms (clock w (clock_reads w))"

definition tick :: "world \<Rightarrow> world" where
  "tick w = w\<lparr>clock_reads := Suc (clock_reads w)\<rparr>"

text \<open>\<^verbatim>\<open>time.strftime("%H:%M:%S")\<close>: format the current reading, consume it.\<close>

definition time_strftime :: "world \<Rightarrow> string \<times> world" where
  "time_strftime w = (now w, tick w)"

subsection \<open>Pseudo-random generator\<close>

definition next_raw :: "world \<Rightarrow> nat \<times> world" where
  "next_raw w = (random_src w (random_reads w), w\<lparr>random_reads := Suc (random_reads w)\<rparr>)"

text \<open>\<^verbatim>\<open>random.randint(lo, hi)\<close>, for \<open>lo \<le> hi\<close>: an integer of the closed interval.\<close>

definition randint :: "nat \<Rightarrow> nat \<Rightarrow> world \<Rightarrow> nat \<times> world" where
  "randint lo hi w = (case next_raw w of (r, w') \<Rightarrow> (lo + r mod (hi - lo + 1), w'))"

text \<open>\<^verbatim>\<open>random.random()\<close>: a multiple of \<open>2\<^sup>-\<^sup>5\<^sup>3\<close> in the half-open interval from 0 to 1.\<close>

definition random_random :: "world \<Rightarrow> real \<times> world" where
  "random_random w = (case next_raw w of (r, w') \<Rightarrow> (real (r mod 2 ^ 53) / 2 ^ 53, w'))"

text \<open>\<^verbatim>\<open>random.choice(seq)\<close>: raises IndexError on an empty sequence.\<close>

definition random_choice :: "'a list \<Rightarrow> world \<Rightarrow> py_error + ('a \<times> world)" where
  "random_choice xs w =
     (if xs = [] then Inl IndexError
      else case next_raw w of (r, w') \<Rightarrow> Inr (xs ! (r mod length xs), w'))"

section \<open>Detection controller (class SimpleController)\<close>

record controller =
  arp_table :: "(string \<times> string) list"
  blocked_macs :: "string set"
  block_on_detect :: bool
  logs :: "string list"

text \<open>
  The table is a Python dict, kept as an association list in insertion order: a lookup is
  \<open>map_of\<close>, and an assignment \<^verbatim>\<open>d[k] = v\<close> is \<open>AList.update\<close>, which replaces the value
  in place when the key is present and appends the pair otherwise.
\<close>

definition SimpleController_init :: "bool \<Rightarrow> controller" where
  "SimpleController_init b =
     \<lparr>arp_table = [], blocked_macs = {}, block_on_detect = b, logs = []\<rparr>"

text \<open>Method \<^verbatim>\<open>_log\<close>.\<close>

definition ctrl_log :: "string \<Rightarrow> string \<Rightarrow> controller \<Rightarrow> world \<Rightarrow> string \<times> controller \<times> world" where
  "ctrl_log lvl msg c w =
     (case time_strftime w of (ts, w') \<Rightarrow>
        (let line = ''['' @ ts @ ''] '' @ lvl @ '': '' @ msg
         in (line, c\<lparr>logs := logs c @ [line]\<rparr>, w')))"

definition block_mac :: "string \<Rightarrow> controller \<Rightarrow> world \<Rightarrow> string option \<times> controller \<times> world" where
  "block_mac mac c w =
     (if mac \<notin> blocked_macs c then
        (case ctrl_log ''MITIGATE'' (''Blocking MAC '' @ mac @ '' (simulated drop flow).'')
                (c\<lparr>blocked_macs := insert mac (blocked_macs c)\<rparr>) w of
           (line, c', w') \<Rightarrow> (Some line, c', w'))
      else (None, c, w))"

definition receive_arp ::
  "string \<Rightarrow> string \<Rightarrow> string \<Rightarrow> controller \<Rightarrow> world \<Rightarrow> string \<times> controller \<times> world" where
  "receive_arp src_ip src_mac pkt_info c w =
     (if src_mac \<in> blocked_macs c then
        ctrl_log ''DROP'' (''Packet from blocked MAC '' @ src_mac @ '' dropped. ('' @ pkt_info @ '')'') c w
      else if map_of (arp_table c) src_ip \<noteq> None \<and> map_of (arp_table c) src_ip \<noteq> Some src_mac then
        (let old = the (map_of (arp_table c) src_ip) in
         case ctrl_log ''ALERT'' (''ARP spoof detected: IP '' @ src_ip @ '' was '' @ old @
                  '', now '' @ src_mac @ ''. ('' @ pkt_info @ '')'') c w of
           (alert, c1, w1) \<Rightarrow>
             if block_on_detect c1 then
               (case block_mac src_mac c1 w1 of (_, c2, w2) \<Rightarrow> (alert, c2, w2))
             else (alert, c1, w1))
      else
        ctrl_log ''LEARN'' (''Learned '' @ src_ip @ '' -> '' @ src_mac @ ''. ('' @ pkt_info @ '')'')
          (c\<lparr>arp_table := AList.update src_ip src_mac (arp_table c)\<rparr>) w)"


text \<open>A run of controller operations, including the assignment of the auto-block flag.\<close>

datatype ctrl_op =
    ReceiveArp string string string
  | BlockMac string
  | SetBlockOnDetect bool

fun apply_op :: "ctrl_op \<Rightarrow> controller \<Rightarrow> world \<Rightarrow> controller \<times> world" where
  "apply_op (ReceiveArp ip mac info) c w = snd (receive_arp ip mac info c w)"
| "apply_op (BlockMac mac) c w = snd (block_mac mac c w)"
| "apply_op (SetBlockOnDetect b) c w = (c\<lparr>block_on_detect := b\<rparr>, w)"

fun run_ops :: "ctrl_op list \<Rightarrow> controller \<Rightarrow> world \<Rightarrow> controller \<times> world" where
  "run_ops [] c w = (c, w)"
| "run_ops (x # xs) c w = (case apply_op x c w of (c', w') \<Rightarrow> run_ops xs c' w')"

text \<open>Consecutive announcements \<open>(network address, hardware address, context label)\<close>.\<close>

fun receive_all :: "(string \<times> string \<times> string) list \<Rightarrow> controller \<Rightarrow> world \<Rightarrow> controller \<times> world" where
  "receive_all [] c w = (c, w)"
| "receive_all ((ip, mac, info) # ps) c w =
     (case receive_arp ip mac info c w of (_, c', w') \<Rightarrow> receive_all ps c' w')"

subsection \<open>The four kinds of log line\<close>

text \<open>The lines the controller writes, by level, for a time stamp \<open>ts\<close>.\<close>

definition drop_line :: "string \<Rightarrow> string \<Rightarrow> string \<Rightarrow> string" where
  "drop_line ts mac info =
     ''['' @ ts @ ''] DROP: Packet from blocked MAC '' @ mac @ '' dropped. ('' @ info @ '')''"

definition alert_line :: "string \<Rightarrow> string \<Rightarrow> string \<Rightarrow> string \<Rightarrow> string \<Rightarrow> string" where
  "alert_line ts ip old mac info =
     ''['' @ ts @ ''] ALERT: ARP spoof detected: IP '' @ ip @ '' was '' @ old @ '', now '' @ mac @
     ''. ('' @ info @ '')''"

definition learn_line :: "string \<Rightarrow> string \<Rightarrow> string \<Rightarrow> string \<Rightarrow> string" where
  "learn_line ts ip mac info =
     ''['' @ ts @ ''] LEARN: Learned '' @ ip @ '' -> '' @ mac @ ''. ('' @ info @ '')''"

definition mitigate_line :: "string \<Rightarrow> string \<Rightarrow> string" where
  "mitigate_line ts mac =
     ''['' @ ts @ ''] MITIGATE: Blocking MAC '' @ mac @ '' (simulated drop flow).''"

subsection \<open>Reading log lines\<close>

text \<open>The level of a line \<^verbatim>\<open>[HH:MM:SS] LEVEL: message\<close>: what stands between the
  eleven characters of the time stamp and the next colon.\<close>

definition level_of :: "string \<Rightarrow> string" where
  "level_of line = takeWhile (\<lambda>ch. ch \<noteq> CHR '':'') (drop 11 line)"

definition levels :: "string list" where
  "levels = [''DROP'', ''ALERT'', ''LEARN'', ''MITIGATE'']"

definition is_digit :: "char \<Rightarrow> bool" where
  "is_digit ch = (ch \<in> set ''0123456789'')"

definition digit_val :: "char \<Rightarrow> nat" where
  "digit_val ch = (of_char ch :: nat) - 48"

text \<open>The number a string of decimal digits stands for (\<^verbatim>\<open>int(s)\<close>).\<close>

definition dec_value :: "string \<Rightarrow> nat" where
  "dec_value s = foldl (\<lambda>a ch. 10 * a + digit_val ch) 0 s"

text \<open>A 24-hour time of day \<^verbatim>\<open>HH:MM:SS\<close>.\<close>

definition is_hms :: "string \<Rightarrow> bool" where
  "is_hms s = (length s = 8 \<and> is_digit (s ! 0) \<and> is_digit (s ! 1) \<and> s ! 2 = CHR '':'' \<and>
     is_digit (s ! 3) \<and> is_digit (s ! 4) \<and> s ! 5 = CHR '':'' \<and> is_digit (s ! 6) \<and> is_digit (s ! 7) \<and>
     10 * digit_val (s ! 0) + digit_val (s ! 1) < 24 \<and>
     10 * digit_val (s ! 3) + digit_val (s ! 4) < 60 \<and>
     10 * digit_val (s ! 6) + digit_val (s ! 7) < 60)"

text \<open>The line has the form \<^verbatim>\<open>[ts] LEVEL: message\<close> with one of the four levels.\<close>

definition starts_with :: "string \<Rightarrow> string \<Rightarrow> bool" where
  "starts_with p s = (take (length p) s = p)"

definition log_line_ok :: "string \<Rightarrow> string \<Rightarrow> bool" where
  "log_line_ok ts line = (\<exists>lvl \<in> set levels. starts_with (''['' @ ts @ ''] '' @ lvl @ '': '') line)"

text \<open>
  From \<open>(c, w)\<close> to \<open>(c', w')\<close> the log was only extended, each new entry took one clock
  reading, and the \<open>k\<close>-th new entry is a well-formed line stamped with the \<open>k\<close>-th of these
  readings.
\<close>

definition appended_ok :: "controller \<Rightarrow> world \<Rightarrow> controller \<Rightarrow> world \<Rightarrow> bool" where
  "appended_ok c w c' w' =
     (length (logs c) \<le> length (logs c') \<and> take (length (logs c)) (logs c') = logs c \<and>
      clock w' = clock w \<and>
      clock_reads w' = clock_reads w + (length (logs c') - length (logs c)) \<and>
      (\<forall>k < length (logs c') - length (logs c).
         log_line_ok (hms (clock w (clock_reads w + k))) (logs c' ! (length (logs c) + k))))"

section \<open>Identity generator\<close>

text \<open>\<^verbatim>\<open>sep.join(parts)\<close> and, to read results, \<^verbatim>\<open>s.split(":")\<close>.\<close>

fun join :: "string \<Rightarrow> string list \<Rightarrow> string" where
  "join sep [] = []"
| "join sep [x] = x"
| "join sep (x # y # ys) = x @ sep @ join sep (y # ys)"

fun split_colon :: "string \<Rightarrow> string list" where
  "split_colon [] = [[]]"
| "split_colon (ch # cs) =
     (if ch = CHR '':'' then [] # split_colon cs
      else (case split_colon cs of [] \<Rightarrow> [[ch]] | g # gs \<Rightarrow> (ch # g) # gs))"

definition is_hex_group :: "string \<Rightarrow> bool" where
  "is_hex_group g = (length g = 2 \<and> list_all (\<lambda>ch. ch \<in> set ''0123456789abcdef'') g)"

text \<open>A colon-separated string of \<open>n\<close> lowercase two-digit hexadecimal groups.\<close>

definition colon_hex :: "nat \<Rightarrow> string \<Rightarrow> bool" where
  "colon_hex n s = (length (split_colon s) = n \<and> list_all is_hex_group (split_colon s))"

text \<open>The generator expression \<^verbatim>\<open>"%02x" % random.randint(0,255) for _ in range(n)\<close>.\<close>

fun random_groups :: "nat \<Rightarrow> world \<Rightarrow> string list \<times> world" where
  "random_groups 0 w = ([], w)"
| "random_groups (Suc n) w =
     (case randint 0 255 w of (b, w1) \<Rightarrow>
        (case random_groups n w1 of (gs, w2) \<Rightarrow> (format_02x b # gs, w2)))"

text \<open>Python's truth value of the optional argument: \<^verbatim>\<open>None\<close> and the empty string are false.\<close>

definition truthy :: "string option \<Rightarrow> bool" where
  "truthy p = (p \<noteq> None \<and> p \<noteq> Some [])"

definition random_mac :: "string option \<Rightarrow> world \<Rightarrow> string \<times> world" where
  "random_mac prefix w =
     (if truthy prefix then
        (case random_groups 4 w of (gs, w') \<Rightarrow> (the prefix @ '':'' @ join '':'' gs, w'))
      else (case random_groups 6 w of (gs, w') \<Rightarrow> (join '':'' gs, w')))"

section \<open>Topology renderer\<close>

text \<open>
  An undirected \<^verbatim>\<open>networkx.Graph\<close>: the nodes in insertion order with their attributes, and
  the edges in insertion order, an edge being stored once whatever its direction.
\<close>

record graph =
  nodes :: "(string \<times> (string \<times> int) list) list"
  edges :: "(string \<times> string) list"

definition empty_graph :: graph where
  "empty_graph = \<lparr>nodes = [], edges = []\<rparr>"

definition add_node :: "string \<Rightarrow> (string \<times> int) list \<Rightarrow> graph \<Rightarrow> graph" where
  "add_node n attrs g =
     (case map_of (nodes g) n of
        None \<Rightarrow> g\<lparr>nodes := nodes g @ [(n, attrs)]\<rparr>
      | Some old \<Rightarrow> g\<lparr>nodes := AList.update n (fold (\<lambda>(k, v). AList.update k v) attrs old) (nodes g)\<rparr>)"

definition add_edge :: "string \<Rightarrow> string \<Rightarrow> graph \<Rightarrow> graph" where
  "add_edge u v g =
     (let g1 = (if map_of (nodes g) u = None then g\<lparr>nodes := nodes g @ [(u, [])]\<rparr> else g);
          g2 = (if map_of (nodes g1) v = None then g1\<lparr>nodes := nodes g1 @ [(v, [])]\<rparr> else g1)
      in if (u, v) \<in> set (edges g2) \<or> (v, u) \<in> set (edges g2) then g2
         else g2\<lparr>edges := edges g2 @ [(u, v)]\<rparr>)"

text \<open>What \<^verbatim>\<open>draw_graph\<close> returns: the graph drawn, the node positions and the fixed
  drawing options.\<close>

record 'p figure =
  fig_graph :: graph
  fig_pos :: 'p
  fig_size :: "nat \<times> nat"
  with_labels :: bool
  node_size :: nat
  font_size :: nat

text \<open>
  The force-directed layout \<^verbatim>\<open>nx.spring_layout(G, seed=42)\<close> belongs to a library: it is a
  parameter \<open>spring_layout\<close>, a function of the graph and the seed. The roster is read from
  the session state; \<open>table\<close> and \<open>blocked\<close> are the arguments \<^verbatim>\<open>arp_table\<close> and
  \<^verbatim>\<open>blocked\<close>.
\<close>

definition draw_graph ::
  "(graph \<Rightarrow> nat \<Rightarrow> 'p) \<Rightarrow> (string \<times> string) list \<Rightarrow> (string \<times> string) list \<Rightarrow> string set \<Rightarrow> 'p figure" where
  "draw_graph spring_layout roster table blocked =
     (let G0 = add_node ''controller'' [(''bipartite'', 0)] empty_graph;
          G1 = fold (\<lambda>(ip, mac) G.
                  (let label = ip @ [CHR 0x0A] @ mac
                   in add_edge ''controller'' label (add_node label [] G))) table G0;
          G2 = fold (\<lambda>(ip, mac) G.
                  if map_of table ip = None then
                    (let label = ip @ [CHR 0x0A] @ ''(unknown)''
                     in add_edge ''controller'' label (add_node label [] G))
                  else G) roster G1;
          pos = spring_layout G2 42
      in \<lparr>fig_graph = G2, fig_pos = pos, fig_size = (6, 5), with_labels = True,
          node_size = 900, font_size = 8\<rparr>)"

section \<open>Session state and simulation driver\<close>

record session =
  ctrl :: controller
  hosts :: "(string \<times> string) list"
  started :: bool
  logs_buf :: "string list"

text \<open>The roster loop \<^verbatim>\<open>for i in range(1, hosts_count + 1)\<close> of the session initialisation.\<close>

fun gen_hosts :: "nat list \<Rightarrow> (string \<times> string) list \<Rightarrow> world \<Rightarrow> (string \<times> string) list \<times> world" where
  "gen_hosts [] acc w = (acc, w)"
| "gen_hosts (i # rest) acc w =
     (let ip = ''10.0.0.'' @ format_d i in
      case randint 0 255 w of (b1, w1) \<Rightarrow>
      case randint 0 255 w1 of (b2, w2) \<Rightarrow>
      case randint 0 255 w2 of (b3, w3) \<Rightarrow>
      case randint 0 255 w3 of (b4, w4) \<Rightarrow>
        (let mac = ''02:00:'' @ format_02x b1 @ '':'' @ format_02x b2 @ '':'' @
                   format_02x b3 @ '':'' @ format_02x b4
         in gen_hosts rest (acc @ [(ip, mac)]) w4))"

text \<open>First load or Reset: a fresh controller and a fresh roster.\<close>

definition init_session :: "nat \<Rightarrow> bool \<Rightarrow> world \<Rightarrow> session \<times> world" where
  "init_session hosts_count block w =
     (case gen_hosts [1 ..< hosts_count + 1] [] w of
        (hs, w') \<Rightarrow> (\<lparr>ctrl = SimpleController_init block, hosts = hs, started = False,
                     logs_buf = []\<rparr>, w'))"


text \<open>The initial learning pass, run while the session is not started.\<close>

definition initial_pass :: "session \<Rightarrow> world \<Rightarrow> session \<times> world" where
  "initial_pass s w =
     (if \<not> started s then
        (case receive_all (map (\<lambda>(ip, mac). (ip, mac, ''initial ARP'')) (hosts s)) (ctrl s) w of
           (c', w') \<Rightarrow> (s\<lparr>ctrl := c', started := True\<rparr>, w'))
      else (s, w))"

text \<open>One simulated event; \<open>mode\<close> and \<open>spoof_chance\<close> are the sidebar's values.\<close>

definition one_event :: "string \<Rightarrow> real \<Rightarrow> session \<Rightarrow> world \<Rightarrow> py_error + (session \<times> world)" where
  "one_event mode spoof_chance s w =
     (if mode = ''basic'' then
        (let attacker_mac = ''aa:aa:aa:aa:aa:aa'' in
         if length (hosts s) \<ge> 2 then
           (let victim_ip = fst (hosts s ! 1) in
            case receive_arp victim_ip attacker_mac ''spoof attempt (basic)'' (ctrl s) w of
              (_, c1, w1) \<Rightarrow>
            case receive_arp victim_ip attacker_mac ''spoof attempt (basic #2)'' c1 w1 of
              (_, c2, w2) \<Rightarrow> Inr (s\<lparr>ctrl := c2\<rparr>, w2))
         else Inr (s, w))
      else
        (case random_random w of (r, w1) \<Rightarrow>
           if r < spoof_chance then
             (case random_choice (hosts s) w1 of
                Inl e \<Rightarrow> Inl e
              | Inr (v, w2) \<Rightarrow>
                  (let victim = fst v in
                   case randint 0 255 w2 of (b1, w3) \<Rightarrow>
                   case randint 0 255 w3 of (b2, w4) \<Rightarrow>
                     (let attacker_mac = ''de:ad:be:ef:'' @ format_02x b1 @ '':'' @ format_02x b2 in
                      case receive_arp victim attacker_mac ''random spoof'' (ctrl s) w4 of
                        (_, c', w5) \<Rightarrow> Inr (s\<lparr>ctrl := c'\<rparr>, w5))))
           else
             (case random_choice (hosts s) w1 of
                Inl e \<Rightarrow> Inl e
              | Inr (h, w2) \<Rightarrow>
                  (case receive_arp (fst h) (snd h) ''normal ARP'' (ctrl s) w2 of
                     (_, c', w3) \<Rightarrow> Inr (s\<lparr>ctrl := c'\<rparr>, w3)))))"

text \<open>
  The announcements one event hands to the controller, in order: the arguments of the calls
  of \<^verbatim>\<open>receive_arp\<close> in \<^verbatim>\<open>one_event\<close>. They are all fixed before the first call is made.
\<close>

definition one_event_packets ::
  "string \<Rightarrow> real \<Rightarrow> session \<Rightarrow> world \<Rightarrow> py_error + ((string \<times> string \<times> string) list \<times> world)" where
  "one_event_packets mode spoof_chance s w =
     (if mode = ''basic'' then
        (if length (hosts s) \<ge> 2 then
           Inr ([(fst (hosts s ! 1), ''aa:aa:aa:aa:aa:aa'', ''spoof attempt (basic)''),
                 (fst (hosts s ! 1), ''aa:aa:aa:aa:aa:aa'', ''spoof attempt (basic #2)'')], w)
         else Inr ([], w))
      else
        (case random_random w of (r, w1) \<Rightarrow>
           if r < spoof_chance then
             (case random_choice (hosts s) w1 of
                Inl e \<Rightarrow> Inl e
              | Inr (v, w2) \<Rightarrow>
                  (case randint 0 255 w2 of (b1, w3) \<Rightarrow>
                   case randint 0 255 w3 of (b2, w4) \<Rightarrow>
                     Inr ([(fst v, ''de:ad:be:ef:'' @ format_02x b1 @ '':'' @ format_02x b2,
                            ''random spoof'')], w4)))
           else
             (case random_choice (hosts s) w1 of
                Inl e \<Rightarrow> Inl e
              | Inr (h, w2) \<Rightarrow> Inr ([(fst h, snd h, ''normal ARP'')], w2))))"

text \<open>
  The roster has been learned: every host's network address is in the table with the
  host's own hardware address.
\<close>

definition roster_learned :: "session \<Rightarrow> bool" where
  "roster_learned s = list_all (\<lambda>(ip, mac). map_of (arp_table (ctrl s)) ip = Some mac) (hosts s)"

text \<open>Repeated events under one configuration, stopping at the first exception.\<close>

fun repeat_event :: "nat \<Rightarrow> string \<Rightarrow> real \<Rightarrow> session \<Rightarrow> world \<Rightarrow> py_error + (session \<times> world)" where
  "repeat_event 0 mode p s w = Inr (s, w)"
| "repeat_event (Suc n) mode p s w =
     (case one_event mode p s w of
        Inl e \<Rightarrow> Inl e
      | Inr (s', w') \<Rightarrow> repeat_event n mode p s' w')"




section \<open>Basic facts\<close>

subsection \<open>Time stamps and log lines\<close>

lemma lt10_cases: "k < 10 \<Longrightarrow> k \<in> {0, 1, 2, 3, 4, 5, 6, 7, 8, 9::nat}"
  by auto

lemma is_digit_digit_char: "k < 10 \<Longrightarrow> is_digit (digit_char k)"
  by (drule lt10_cases) (auto simp: is_digit_def digit_char_def)

lemma digit_val_digit_char: "k < 10 \<Longrightarrow> digit_val (digit_char k) = k"
  by (drule lt10_cases) (auto simp: digit_val_def digit_char_def)

lemma format_02d_small:
  assumes "n < 100"
  shows "format_02d n = [digit_char (n div 10), digit_char (n mod 10)]"
proof (cases "n < 10")
  case True
  then show ?thesis
    by (simp add: format_02d_def zero_pad2_def format_d.simps [of n] digit_char_def)
next
  case False
  with assms have "n div 10 < 10" by simp
  then have "format_d (n div 10) = [digit_char (n div 10)]"
    by (simp add: format_d.simps [of "n div 10"])
  with False show ?thesis
    by (simp add: format_02d_def zero_pad2_def format_d.simps [of n])
qed

lemma hms_chars:
  "hms t = [digit_char (t div 3600 mod 24 div 10), digit_char (t div 3600 mod 24 mod 10), CHR '':'',
            digit_char (t div 60 mod 60 div 10), digit_char (t div 60 mod 60 mod 10), CHR '':'',
            digit_char (t mod 60 div 10), digit_char (t mod 60 mod 10)]"
proof -
  have "t div 3600 mod 24 < 100" "t div 60 mod 60 < 100" "t mod 60 < 100"
    by (simp_all add: less_trans [OF mod_less_divisor])
  then show ?thesis
    by (simp add: hms_def format_02d_small)
qed

lemma length_hms [simp]: "length (hms t) = 8"
  by (simp add: hms_chars)

lemma two_digits_val:
  assumes "n < 100"
  shows "10 * digit_val (digit_char (n div 10)) + digit_val (digit_char (n mod 10)) = n"
proof -
  from assms have "n div 10 < 10" by simp
  then show ?thesis by (simp add: digit_val_digit_char)
qed

lemma is_hms_hms: "is_hms (hms t)"
proof -
  have b: "t div 3600 mod 24 < 24" "t div 60 mod 60 < 60" "t mod 60 < 60"
    by simp_all
  then have c: "t div 3600 mod 24 < 100" "t div 60 mod 60 < 100" "t mod 60 < 100"
    by linarith+
  then have d: "t div 3600 mod 24 div 10 < 10" "t div 60 mod 60 div 10 < 10" "t mod 60 div 10 < 10"
    by simp_all
  show ?thesis
    unfolding is_hms_def hms_chars
    using b by (simp add: is_digit_digit_char two_digits_val [OF c(1)] two_digits_val [OF c(2)]
        two_digits_val [OF c(3)] d)
qed

lemma length_now [simp]: "length (now w) = 8"
  by (simp add: now_def)

lemma level_of_line:
  assumes "length ts = 8" "CHR '':'' \<notin> set lvl"
  shows "level_of (''['' @ ts @ ''] '' @ lvl @ '': '' @ msg) = lvl"
proof -
  have "drop 11 (''['' @ ts @ ''] '' @ lvl @ '': '' @ msg) = lvl @ '': '' @ msg"
    using assms(1) by simp
  moreover have "takeWhile (\<lambda>ch. ch \<noteq> CHR '':'') (lvl @ '': '' @ msg) = lvl"
    using assms(2) by (auto simp add: takeWhile_tail)
  ultimately show ?thesis
    by (simp only: level_of_def)
qed

subsection \<open>The controller, branch by branch\<close>

lemma ctrl_log_eq:
  "ctrl_log lvl msg c w =
     (''['' @ now w @ ''] '' @ lvl @ '': '' @ msg,
      c\<lparr>logs := logs c @ [''['' @ now w @ ''] '' @ lvl @ '': '' @ msg]\<rparr>, tick w)"
  by (simp add: ctrl_log_def time_strftime_def Let_def)

lemma clock_tick [simp]: "clock (tick w) = clock w" "clock_reads (tick w) = Suc (clock_reads w)"
  "random_src (tick w) = random_src w" "random_reads (tick w) = random_reads w"
  by (simp_all add: tick_def)

lemma now_tick: "now (tick w) = hms (clock w (Suc (clock_reads w)))"
  by (simp add: now_def)

lemma block_mac_blocked: "mac \<in> blocked_macs c \<Longrightarrow> block_mac mac c w = (None, c, w)"
  by (simp add: block_mac_def)

lemma block_mac_fresh:
  "mac \<notin> blocked_macs c \<Longrightarrow> block_mac mac c w =
     (Some (mitigate_line (now w) mac),
      c\<lparr>blocked_macs := insert mac (blocked_macs c),
        logs := logs c @ [mitigate_line (now w) mac]\<rparr>,
      tick w)"
  by (simp add: block_mac_def ctrl_log_eq mitigate_line_def)

lemma receive_arp_drop:
  "mac \<in> blocked_macs c \<Longrightarrow> receive_arp ip mac info c w =
     (drop_line (now w) mac info, c\<lparr>logs := logs c @ [drop_line (now w) mac info]\<rparr>, tick w)"
  by (simp add: receive_arp_def ctrl_log_eq drop_line_def)

lemma receive_arp_alert:
  assumes "mac \<notin> blocked_macs c" "map_of (arp_table c) ip = Some old" "old \<noteq> mac"
  shows "receive_arp ip mac info c w =
     (alert_line (now w) ip old mac info,
      (if block_on_detect c then
         c\<lparr>blocked_macs := insert mac (blocked_macs c),
           logs := logs c @ [alert_line (now w) ip old mac info, mitigate_line (now (tick w)) mac]\<rparr>
       else c\<lparr>logs := logs c @ [alert_line (now w) ip old mac info]\<rparr>),
      (if block_on_detect c then tick (tick w) else tick w))"
  using assms
  by (simp add: receive_arp_def ctrl_log_eq block_mac_def Let_def alert_line_def mitigate_line_def)

lemma receive_arp_learn:
  assumes "mac \<notin> blocked_macs c" "map_of (arp_table c) ip = None \<or> map_of (arp_table c) ip = Some mac"
  shows "receive_arp ip mac info c w =
     (learn_line (now w) ip mac info,
      c\<lparr>arp_table := AList.update ip mac (arp_table c),
        logs := logs c @ [learn_line (now w) ip mac info]\<rparr>,
      tick w)"
  using assms by (auto simp add: receive_arp_def ctrl_log_eq learn_line_def)

lemma level_of_stamped:
  "length ts = 8 \<Longrightarrow>
   level_of (CHR ''['' # ts @ CHR '']'' # CHR '' '' # rest) = takeWhile (\<lambda>ch. ch \<noteq> CHR '':'') rest"
  by (simp add: level_of_def)

lemma level_of_lines [simp]:
  assumes "length ts = 8"
  shows "level_of (drop_line ts mac info) = ''DROP''"
    and "level_of (alert_line ts ip old mac info) = ''ALERT''"
    and "level_of (learn_line ts ip mac info) = ''LEARN''"
    and "level_of (mitigate_line ts mac) = ''MITIGATE''"
  using assms
  by (simp_all add: drop_line_def alert_line_def learn_line_def mitigate_line_def level_of_stamped)

lemma now_at: "now (w\<lparr>clock_reads := n\<rparr>) = hms (clock w n)"
  by (simp add: now_def)

lemma tick_at: "tick (w\<lparr>clock_reads := n\<rparr>) = w\<lparr>clock_reads := Suc n\<rparr>"
  by (simp add: tick_def)

lemma receive_all_append:
  "receive_all (ps @ qs) c w = (case receive_all ps c w of (c', w') \<Rightarrow> receive_all qs c' w')"
  by (induction ps c w rule: receive_all.induct) (simp_all split: prod.splits)

section \<open>Claims about the detection controller\<close>

text \<open>
  Claim C1. Whenever the table maps network address \<open>A\<close> to \<open>M1\<close>, \<open>M1\<close> is not blocked,
  and an announcement \<open>(A, M2)\<close> arrives with \<open>M2 \<noteq> M1\<close> and \<open>M2\<close> not blocked, the
  controller appends and returns an ALERT entry (followed by a MITIGATE entry when auto-block
  is on), and the table is unchanged: it still maps \<open>A\<close> to \<open>M1\<close>, not to \<open>M2\<close>.
\<close>

theorem conflict_keeps_mapping:
  assumes "map_of (arp_table c) A = Some M1" and "M1 \<notin> blocked_macs c"
    and "M2 \<noteq> M1" and "M2 \<notin> blocked_macs c"
  shows "case receive_arp A M2 info c w of (r, c', w') \<Rightarrow>
           r = alert_line (now w) A M1 M2 info \<and>
           level_of r = ''ALERT'' \<and>
           logs c' = logs c @ r #
             (if block_on_detect c then [mitigate_line (now (tick w)) M2] else []) \<and>
           arp_table c' = arp_table c \<and>
           map_of (arp_table c') A = Some M1 \<and> map_of (arp_table c') A \<noteq> Some M2"
proof -
  have "M1 \<noteq> M2" using assms(3) by simp
  then show ?thesis
    using assms(1,4) by (simp add: receive_arp_alert)
qed

theorem conflict_keeps_mapping_witness:
  "map_of [(''10.0.0.2'', ''02:00:00:00:00:01'')] ''10.0.0.2'' = Some ''02:00:00:00:00:01'' \<and>
   ''aa:aa:aa:aa:aa:aa'' \<noteq> ''02:00:00:00:00:01'' \<and>
   (case receive_arp ''10.0.0.2'' ''aa:aa:aa:aa:aa:aa'' ''spoof''
          \<lparr>arp_table = [(''10.0.0.2'', ''02:00:00:00:00:01'')], blocked_macs = {},
           block_on_detect = True, logs = []\<rparr>
          \<lparr>clock = (\<lambda>k. 47000 + k), clock_reads = 0, random_src = (\<lambda>k. k), random_reads = 0\<rparr> of
      (r, c', w') \<Rightarrow> level_of r = ''ALERT'' \<and> length (logs c') = 2 \<and> hd (logs c') = r \<and>
         map_of (arp_table c') ''10.0.0.2'' = Some ''02:00:00:00:00:01'')"
  using conflict_keeps_mapping [where c = "\<lparr>arp_table = [(''10.0.0.2'', ''02:00:00:00:00:01'')], blocked_macs = {},
           block_on_detect = True, logs = []\<rparr>" and A = "''10.0.0.2''" and ?M1.0 = "''02:00:00:00:00:01''"
           and ?M2.0 = "''aa:aa:aa:aa:aa:aa''" and info = "''spoof''"
           and w = "\<lparr>clock = (\<lambda>k. 47000 + k), clock_reads = 0, random_src = (\<lambda>k. k), random_reads = 0\<rparr>"]
  by (simp split: prod.splits)

text \<open>
  Claim C5. Blocking is idempotent: for an address already in the blocked set the operation
  returns no entry and changes nothing (the blocked set, its size and the log stay as they
  are, and the clock is not read); and after blocking any address once, blocking it again
  changes nothing.
\<close>

theorem block_mac_idempotent:
  "(M \<in> blocked_macs c \<longrightarrow>
      block_mac M c w = (None, c, w) \<and>
      blocked_macs (fst (snd (block_mac M c w))) = blocked_macs c \<and>
      card (blocked_macs (fst (snd (block_mac M c w)))) = card (blocked_macs c) \<and>
      logs (fst (snd (block_mac M c w))) = logs c) \<and>
   (case block_mac M c w of (r1, c1, w1) \<Rightarrow> block_mac M c1 w1 = (None, c1, w1))"
proof (cases "M \<in> blocked_macs c")
  case True
  then show ?thesis by (simp add: block_mac_blocked)
next
  case False
  then show ?thesis by (simp add: block_mac_fresh block_mac_blocked)
qed

theorem block_mac_idempotent_witness:
  "''aa:aa:aa:aa:aa:aa'' \<in> {''aa:aa:aa:aa:aa:aa''} \<and>
   block_mac ''aa:aa:aa:aa:aa:aa''
     \<lparr>arp_table = [], blocked_macs = {''aa:aa:aa:aa:aa:aa''}, block_on_detect = True, logs = [''x'']\<rparr>
     \<lparr>clock = (\<lambda>k. k), clock_reads = 3, random_src = (\<lambda>k. k), random_reads = 0\<rparr> =
   (None, \<lparr>arp_table = [], blocked_macs = {''aa:aa:aa:aa:aa:aa''}, block_on_detect = True, logs = [''x'']\<rparr>,
    \<lparr>clock = (\<lambda>k. k), clock_reads = 3, random_src = (\<lambda>k. k), random_reads = 0\<rparr>)"
  using block_mac_idempotent [where M = "''aa:aa:aa:aa:aa:aa''"
      and c = "\<lparr>arp_table = [], blocked_macs = {''aa:aa:aa:aa:aa:aa''}, block_on_detect = True, logs = [''x'']\<rparr>"
      and w = "\<lparr>clock = (\<lambda>k. k), clock_reads = 3, random_src = (\<lambda>k. k), random_reads = 0\<rparr>"]
  by simp

lemma repeated_alerts:
  assumes "\<not> block_on_detect c" "map_of (arp_table c) A = Some M1" "M2 \<noteq> M1" "M2 \<notin> blocked_macs c"
  shows "receive_all (map (\<lambda>i. (A, M2, i)) infos) c w =
     (c\<lparr>logs := logs c @ map (\<lambda>k. alert_line (hms (clock w (clock_reads w + k))) A M1 M2 (infos ! k))
                          [0 ..< length infos]\<rparr>,
      w\<lparr>clock_reads := clock_reads w + length infos\<rparr>)"
proof (induction infos rule: rev_induct)
  case Nil
  show ?case by simp
next
  case (snoc x xs)
  have same: "map (\<lambda>k. alert_line (hms (clock w (clock_reads w + k))) A M1 M2 ((xs @ [x]) ! k)) [0 ..< length xs]
      = map (\<lambda>k. alert_line (hms (clock w (clock_reads w + k))) A M1 M2 (xs ! k)) [0 ..< length xs]"
    by (rule map_cong) (simp_all add: nth_append)
  show ?case
    using assms
    by (simp add: receive_all_append snoc.IH same receive_arp_alert [where old = M1] now_at tick_at)
qed

text \<open>
  Claim C10. Alerts are not deduplicated. With auto-block off, a table mapping \<open>A\<close> to \<open>M1\<close>
  and \<open>M2 \<noteq> M1\<close> not blocked, any number of repetitions of the announcement \<open>(A, M2)\<close>
  (one per context label in \<open>infos\<close>) appends exactly one fresh ALERT entry per call, and the
  blocked set, the table and the flag stay as they were.
\<close>

theorem alerts_not_deduplicated:
  assumes "\<not> block_on_detect c" and "map_of (arp_table c) A = Some M1"
    and "M2 \<noteq> M1" and "M2 \<notin> blocked_macs c"
  shows "case receive_all (map (\<lambda>i. (A, M2, i)) infos) c w of (c', w') \<Rightarrow>
           logs c' = logs c @ map (\<lambda>k. alert_line (hms (clock w (clock_reads w + k))) A M1 M2 (infos ! k))
                                [0 ..< length infos] \<and>
           length (logs c') = length (logs c) + length infos \<and>
           (\<forall>k < length infos. level_of (logs c' ! (length (logs c) + k)) = ''ALERT'') \<and>
           blocked_macs c' = blocked_macs c \<and> arp_table c' = arp_table c \<and>
           \<not> block_on_detect c'"
  using assms by (simp add: repeated_alerts nth_append)

theorem alerts_not_deduplicated_witness:
  "(case receive_all (map (\<lambda>i. (''10.0.0.2'', ''aa:aa:aa:aa:aa:aa'', i)) [''first'', ''second'', ''third''])
          \<lparr>arp_table = [(''10.0.0.2'', ''02:00:00:00:00:01'')], blocked_macs = {},
           block_on_detect = False, logs = []\<rparr>
          \<lparr>clock = (\<lambda>k. 47000 + k), clock_reads = 0, random_src = (\<lambda>k. k), random_reads = 0\<rparr> of
      (c', w') \<Rightarrow> length (logs c') = 3 \<and> map level_of (logs c') = [''ALERT'', ''ALERT'', ''ALERT''] \<and>
         blocked_macs c' = {})"
  using alerts_not_deduplicated [where c = "\<lparr>arp_table = [(''10.0.0.2'', ''02:00:00:00:00:01'')], blocked_macs = {},
           block_on_detect = False, logs = []\<rparr>" and A = "''10.0.0.2''" and ?M1.0 = "''02:00:00:00:00:01''"
           and ?M2.0 = "''aa:aa:aa:aa:aa:aa''" and infos = "[''first'', ''second'', ''third'']"
           and w = "\<lparr>clock = (\<lambda>k. 47000 + k), clock_reads = 0, random_src = (\<lambda>k. k), random_reads = 0\<rparr>"]
  by (simp split: prod.splits add: upt_rec [of 0] upt_rec [of 1] upt_rec [of 2] upt_rec [of 3])

lemma receive_arp_blocked_mono:
  "M \<in> blocked_macs c \<Longrightarrow> M \<in> blocked_macs (fst (snd (receive_arp ip mac info c w)))"
  by (simp add: receive_arp_def ctrl_log_eq block_mac_def Let_def)

lemma block_mac_blocked_mono:
  "M \<in> blocked_macs c \<Longrightarrow> M \<in> blocked_macs (fst (snd (block_mac mac c w)))"
  by (simp add: block_mac_def ctrl_log_eq)

lemma apply_op_blocked_mono:
  "M \<in> blocked_macs c \<Longrightarrow> M \<in> blocked_macs (fst (apply_op x c w))"
  by (cases x) (simp_all add: receive_arp_blocked_mono block_mac_blocked_mono)

lemma run_ops_blocked_mono:
  "M \<in> blocked_macs c \<Longrightarrow> M \<in> blocked_macs (fst (run_ops ops c w))"
proof (induction ops arbitrary: c w)
  case Nil
  then show ?case by simp
next
  case (Cons x xs)
  obtain c1 w1 where s: "apply_op x c w = (c1, w1)" by (cases "apply_op x c w")
  with Cons.prems have "M \<in> blocked_macs c1"
    using apply_op_blocked_mono [of M c x w] by simp
  then show ?case using s by (simp add: Cons.IH)
qed

text \<open>
  Claim C2. Once \<open>M\<close> is in the blocked set, then after every sequence of controller
  operations (announcements, blocks, changes of the auto-block flag) an announcement from
  \<open>M\<close>, for any network address and any label, appends and returns exactly one DROP entry
  (never a LEARN or an ALERT), and leaves the table and the blocked set as they are.
\<close>

theorem blocked_always_dropped:
  assumes "M \<in> blocked_macs c"
  shows "case run_ops ops c w of (c1, w1) \<Rightarrow>
           (case receive_arp ip M info c1 w1 of (r, c2, w2) \<Rightarrow>
              M \<in> blocked_macs c1 \<and>
              r = drop_line (now w1) M info \<and> level_of r = ''DROP'' \<and>
              level_of r \<noteq> ''LEARN'' \<and> level_of r \<noteq> ''ALERT'' \<and>
              logs c2 = logs c1 @ [r] \<and>
              arp_table c2 = arp_table c1 \<and> blocked_macs c2 = blocked_macs c1)"
proof -
  obtain c1 w1 where s: "run_ops ops c w = (c1, w1)" by (cases "run_ops ops c w")
  have "M \<in> blocked_macs c1"
    using run_ops_blocked_mono [OF assms, of ops w] s by simp
  then show ?thesis
    using s by (simp add: receive_arp_drop)
qed

theorem blocked_always_dropped_witness:
  "''aa:aa:aa:aa:aa:aa'' \<in> {''aa:aa:aa:aa:aa:aa''} \<and>
   (case run_ops [ReceiveArp ''10.0.0.1'' ''02:00:00:00:00:07'' ''normal ARP'',
                  SetBlockOnDetect False, BlockMac ''de:ad:be:ef:00:01'']
          \<lparr>arp_table = [(''10.0.0.1'', ''02:00:00:00:00:01'')], blocked_macs = {''aa:aa:aa:aa:aa:aa''},
           block_on_detect = True, logs = []\<rparr>
          \<lparr>clock = (\<lambda>k. 47000 + k), clock_reads = 0, random_src = (\<lambda>k. k), random_reads = 0\<rparr> of
      (c1, w1) \<Rightarrow>
        (case receive_arp ''10.0.0.9'' ''aa:aa:aa:aa:aa:aa'' ''again'' c1 w1 of (r, c2, w2) \<Rightarrow>
           level_of r = ''DROP'' \<and> logs c2 = logs c1 @ [r] \<and> arp_table c2 = arp_table c1 \<and>
           blocked_macs c2 = blocked_macs c1))"
  using blocked_always_dropped [where M = "''aa:aa:aa:aa:aa:aa''"
      and c = "\<lparr>arp_table = [(''10.0.0.1'', ''02:00:00:00:00:01'')], blocked_macs = {''aa:aa:aa:aa:aa:aa''},
           block_on_detect = True, logs = []\<rparr>"
      and w = "\<lparr>clock = (\<lambda>k. 47000 + k), clock_reads = 0, random_src = (\<lambda>k. k), random_reads = 0\<rparr>"
      and ops = "[ReceiveArp ''10.0.0.1'' ''02:00:00:00:00:07'' ''normal ARP'',
                  SetBlockOnDetect False, BlockMac ''de:ad:be:ef:00:01'']"
      and ip = "''10.0.0.9''" and info = "''again''"]
  by (simp split: prod.splits)

lemma starts_with_append [simp]: "starts_with p (p @ rest)"
  by (simp add: starts_with_def)

lemma log_line_ok_lines:
  "log_line_ok ts (drop_line ts mac info)"
  "log_line_ok ts (alert_line ts ip old mac info)"
  "log_line_ok ts (learn_line ts ip mac info)"
  "log_line_ok ts (mitigate_line ts mac)"
proof -
  have "starts_with (''['' @ ts @ ''] '' @ ''DROP'' @ '': '') (drop_line ts mac info)"
    unfolding drop_line_def starts_with_def by simp
  then show "log_line_ok ts (drop_line ts mac info)"
    unfolding log_line_ok_def levels_def by (intro bexI [of _ "''DROP''"]) simp_all
  have "starts_with (''['' @ ts @ ''] '' @ ''ALERT'' @ '': '') (alert_line ts ip old mac info)"
    unfolding alert_line_def starts_with_def by simp
  then show "log_line_ok ts (alert_line ts ip old mac info)"
    unfolding log_line_ok_def levels_def by (intro bexI [of _ "''ALERT''"]) simp_all
  have "starts_with (''['' @ ts @ ''] '' @ ''LEARN'' @ '': '') (learn_line ts ip mac info)"
    unfolding learn_line_def starts_with_def by simp
  then show "log_line_ok ts (learn_line ts ip mac info)"
    unfolding log_line_ok_def levels_def by (intro bexI [of _ "''LEARN''"]) simp_all
  have "starts_with (''['' @ ts @ ''] '' @ ''MITIGATE'' @ '': '') (mitigate_line ts mac)"
    unfolding mitigate_line_def starts_with_def by simp
  then show "log_line_ok ts (mitigate_line ts mac)"
    unfolding log_line_ok_def levels_def by (intro bexI [of _ "''MITIGATE''"]) simp_all
qed

lemma appended_ok_refl: "appended_ok c w c w"
  by (simp add: appended_ok_def)

lemma appended_ok_one:
  assumes "log_line_ok (now w) l"
  shows "appended_ok c w (c\<lparr>logs := logs c @ [l]\<rparr>) (tick w)"
  using assms by (simp add: appended_ok_def now_def)

lemma appended_ok_two:
  assumes "log_line_ok (now w) l1" "log_line_ok (now (tick w)) l2"
  shows "appended_ok c w (c\<lparr>logs := logs c @ [l1, l2]\<rparr>) (tick (tick w))"
proof -
  have "log_line_ok (hms (clock w (clock_reads w + k))) ([l1, l2] ! k)" if "k < 2" for k
  proof -
    from that have "k = 0 \<or> k = 1" by auto
    then show ?thesis using assms by (auto simp add: now_def)
  qed
  then show ?thesis
    by (simp add: appended_ok_def)
qed

lemma appended_ok_fields:
  assumes "appended_ok c w c' w'" "logs d = logs c" "logs d' = logs c'"
  shows "appended_ok d w d' w'"
  using assms by (simp add: appended_ok_def)

lemma appended_ok_trans:
  assumes "appended_ok c w c1 w1" "appended_ok c1 w1 c2 w2"
  shows "appended_ok c w c2 w2"
proof -
  let ?n = "length (logs c)" and ?n1 = "length (logs c1)" and ?n2 = "length (logs c2)"
  have le: "?n \<le> ?n1" "?n1 \<le> ?n2" using assms by (simp_all add: appended_ok_def)
  have t1: "take ?n (logs c1) = logs c" and t2: "take ?n1 (logs c2) = logs c1"
    using assms by (simp_all add: appended_ok_def)
  have cl: "clock w1 = clock w" "clock w2 = clock w"
    and rd: "clock_reads w1 = clock_reads w + (?n1 - ?n)" "clock_reads w2 = clock_reads w1 + (?n2 - ?n1)"
    using assms by (simp_all add: appended_ok_def)
  have tk: "take ?n (logs c2) = logs c"
  proof -
    have "take ?n (logs c2) = take ?n (take ?n1 (logs c2))" using le by (simp add: min_def)
    then show ?thesis by (simp add: t1 t2)
  qed
  have ok: "log_line_ok (hms (clock w (clock_reads w + k))) (logs c2 ! (?n + k))" if "k < ?n2 - ?n" for k
  proof (cases "?n + k < ?n1")
    case True
    then have "logs c2 ! (?n + k) = logs c1 ! (?n + k)"
      using t2 by (metis nth_take)
    moreover have "log_line_ok (hms (clock w (clock_reads w + k))) (logs c1 ! (?n + k))"
      using assms(1) True by (simp add: appended_ok_def)
    ultimately show ?thesis by simp
  next
    case False
    define j where "j = ?n + k - ?n1"
    have j: "j < ?n2 - ?n1" "?n1 + j = ?n + k" "clock_reads w1 + j = clock_reads w + k"
      using False that le rd by (simp_all add: j_def)
    have "log_line_ok (hms (clock w1 (clock_reads w1 + j))) (logs c2 ! (?n1 + j))"
      using assms(2) j(1) by (simp add: appended_ok_def)
    then show ?thesis by (simp add: j cl)
  qed
  show ?thesis
    unfolding appended_ok_def using le tk cl rd ok by auto
qed

lemma receive_arp_appended_ok:
  "appended_ok c w (fst (snd (receive_arp ip mac info c w))) (snd (snd (receive_arp ip mac info c w)))"
proof (cases "mac \<in> blocked_macs c")
  case True
  then show ?thesis
    by (simp add: receive_arp_drop appended_ok_one log_line_ok_lines)
next
  case nb: False
  show ?thesis
  proof (cases "map_of (arp_table c) ip = None \<or> map_of (arp_table c) ip = Some mac")
    case True
    have "appended_ok (c\<lparr>arp_table := AList.update ip mac (arp_table c)\<rparr>) w
            (c\<lparr>arp_table := AList.update ip mac (arp_table c)\<rparr>
              \<lparr>logs := logs (c\<lparr>arp_table := AList.update ip mac (arp_table c)\<rparr>) @ [learn_line (now w) ip mac info]\<rparr>)
            (tick w)"
      by (rule appended_ok_one) (rule log_line_ok_lines)
    then have "appended_ok c w
            (c\<lparr>arp_table := AList.update ip mac (arp_table c), logs := logs c @ [learn_line (now w) ip mac info]\<rparr>)
            (tick w)"
      by (rule appended_ok_fields) simp_all
    then show ?thesis
      using nb True by (simp add: receive_arp_learn)
  next
    case False
    then obtain old where old: "map_of (arp_table c) ip = Some old" "old \<noteq> mac" by auto
    show ?thesis
    proof (cases "block_on_detect c")
      case True
      have "appended_ok c w (c\<lparr>logs := logs c @ [alert_line (now w) ip old mac info, mitigate_line (now (tick w)) mac]\<rparr>)
              (tick (tick w))"
        by (rule appended_ok_two) (rule log_line_ok_lines)+
      then have "appended_ok c w (c\<lparr>blocked_macs := insert mac (blocked_macs c),
          logs := logs c @ [alert_line (now w) ip old mac info, mitigate_line (now (tick w)) mac]\<rparr>)
              (tick (tick w))"
        by (rule appended_ok_fields) simp_all
      then show ?thesis
        using nb old True by (simp add: receive_arp_alert)
    next
      case False
      then show ?thesis
        using nb old by (simp add: receive_arp_alert appended_ok_one log_line_ok_lines)
    qed
  qed
qed

lemma block_mac_appended_ok:
  "appended_ok c w (fst (snd (block_mac mac c w))) (snd (snd (block_mac mac c w)))"
proof (cases "mac \<in> blocked_macs c")
  case True
  then show ?thesis by (simp add: block_mac_blocked appended_ok_refl)
next
  case False
  have "appended_ok c w (c\<lparr>logs := logs c @ [mitigate_line (now w) mac]\<rparr>) (tick w)"
    by (rule appended_ok_one) (rule log_line_ok_lines)
  then have "appended_ok c w (c\<lparr>blocked_macs := insert mac (blocked_macs c),
        logs := logs c @ [mitigate_line (now w) mac]\<rparr>) (tick w)"
    by (rule appended_ok_fields) simp_all
  then show ?thesis using False by (simp add: block_mac_fresh)
qed

lemma apply_op_appended_ok: "appended_ok c w (fst (apply_op x c w)) (snd (apply_op x c w))"
proof (cases x)
  case (ReceiveArp ip mac info)
  then show ?thesis using receive_arp_appended_ok [of c w ip mac info] by simp
next
  case (BlockMac mac)
  then show ?thesis using block_mac_appended_ok [of c w mac] by simp
next
  case (SetBlockOnDetect b)
  have "appended_ok c w (c\<lparr>block_on_detect := b\<rparr>) w"
    by (rule appended_ok_fields [OF appended_ok_refl [of c w]]) simp_all
  then show ?thesis using SetBlockOnDetect by simp
qed

lemma run_ops_appended_ok: "appended_ok c w (fst (run_ops ops c w)) (snd (run_ops ops c w))"
proof (induction ops arbitrary: c w)
  case Nil
  show ?case by (simp add: appended_ok_refl)
next
  case (Cons x xs)
  obtain c1 w1 where s: "apply_op x c w = (c1, w1)" by (cases "apply_op x c w")
  have a: "appended_ok c w c1 w1" using apply_op_appended_ok [of c w x] s by simp
  have b: "appended_ok c1 w1 (fst (run_ops xs c1 w1)) (snd (run_ops xs c1 w1))" by (rule Cons.IH)
  show ?case using appended_ok_trans [OF a b] s by simp
qed

text \<open>
  Claim C8. Every entry that a controller operation appends has the form
  \<^verbatim>\<open>[HH:MM:SS] LEVEL: message\<close>: the log is only extended, every new entry is stamped with
  the clock reading taken when it was appended, formatted as a 24-hour time of day, and its
  level is DROP, ALERT, LEARN or MITIGATE. This holds for an announcement, for a block, and
  for every sequence of operations; the entry an announcement returns is one of the new ones.
\<close>

theorem log_entries_format:
  "(case receive_arp ip mac info c w of (r, c', w') \<Rightarrow>
      appended_ok c w c' w' \<and> r \<in> set (drop (length (logs c)) (logs c'))) \<and>
   (case block_mac mac c w of (r, c', w') \<Rightarrow> appended_ok c w c' w') \<and>
   (case run_ops ops c w of (c', w') \<Rightarrow> appended_ok c w c' w') \<and>
   is_hms (hms t) \<and> length (hms t) = 8"
proof -
  have "fst (receive_arp ip mac info c w) \<in>
          set (drop (length (logs c)) (logs (fst (snd (receive_arp ip mac info c w)))))"
    by (simp add: receive_arp_def ctrl_log_eq block_mac_def Let_def)
  then show ?thesis
    using receive_arp_appended_ok [of c w ip mac info] block_mac_appended_ok [of c w mac]
      run_ops_appended_ok [of c w ops]
    by (simp add: is_hms_hms case_prod_beta)
qed

theorem log_entries_format_witness:
  "(case run_ops [ReceiveArp ''10.0.0.1'' ''02:00:00:00:00:01'' ''initial ARP'',
                  ReceiveArp ''10.0.0.1'' ''aa:aa:aa:aa:aa:aa'' ''spoof'']
          \<lparr>arp_table = [], blocked_macs = {}, block_on_detect = True, logs = []\<rparr>
          \<lparr>clock = (\<lambda>k. 47000 + k), clock_reads = 0, random_src = (\<lambda>k. k), random_reads = 0\<rparr> of
      (c', w') \<Rightarrow> length (logs c') = 3 \<and> log_line_ok ''13:03:22'' (logs c' ! 2) \<and>
         level_of (logs c' ! 2) = ''MITIGATE'')"
proof -
  let ?c = "\<lparr>arp_table = [], blocked_macs = {}, block_on_detect = True, logs = []\<rparr>"
  let ?w = "\<lparr>clock = (\<lambda>k. 47000 + k), clock_reads = 0, random_src = (\<lambda>k. k), random_reads = 0\<rparr>"
  let ?ops = "[ReceiveArp ''10.0.0.1'' ''02:00:00:00:00:01'' ''initial ARP'',
               ReceiveArp ''10.0.0.1'' ''aa:aa:aa:aa:aa:aa'' ''spoof'']"
  have run: "length (logs (fst (run_ops ?ops ?c ?w))) = 3"
    "level_of (logs (fst (run_ops ?ops ?c ?w)) ! 2) = ''MITIGATE''"
    by (simp_all add: receive_arp_learn receive_arp_alert)
  have "appended_ok ?c ?w (fst (run_ops ?ops ?c ?w)) (snd (run_ops ?ops ?c ?w))"
    using log_entries_format [where c = ?c and w = ?w and ops = ?ops and ip = "''10.0.0.1''"
        and mac = "''aa:aa:aa:aa:aa:aa''" and info = "''spoof''" and t = 47002]
    by (simp only: case_prod_beta)
  then have "\<forall>k<3. log_line_ok (hms (47000 + k)) (logs (fst (run_ops ?ops ?c ?w)) ! k)"
    unfolding appended_ok_def run by simp
  from spec [OF this, of 2] have "log_line_ok (hms 47002) (logs (fst (run_ops ?ops ?c ?w)) ! 2)"
    by simp
  moreover have "hms 47002 = ''13:03:22''"
    by (simp add: hms_chars digit_char_def)
  ultimately show ?thesis
    using run by (simp add: case_prod_beta)
qed

section \<open>Claims about the renderer and the basic-mode guard\<close>

text \<open>
  Claim C9. The rendering does not depend on the blocked set: two controller states with
  the same table, drawn for the same roster, give the same figure (same nodes, labels,
  edges, layout and drawing options), whatever their blocked sets are.
\<close>

theorem draw_graph_ignores_blocked:
  assumes "arp_table c1 = arp_table c2"
  shows "draw_graph spring_layout roster (arp_table c1) (blocked_macs c1) =
         draw_graph spring_layout roster (arp_table c2) (blocked_macs c2)"
  using assms by (simp add: draw_graph_def)

theorem draw_graph_ignores_blocked_witness:
  "draw_graph (\<lambda>g seed. length (nodes g) + seed) [(''10.0.0.1'', ''02:00:00:00:00:01'')]
     (arp_table \<lparr>arp_table = [(''10.0.0.1'', ''02:00:00:00:00:01'')], blocked_macs = {},
                 block_on_detect = True, logs = []\<rparr>) {} =
   draw_graph (\<lambda>g seed. length (nodes g) + seed) [(''10.0.0.1'', ''02:00:00:00:00:01'')]
     (arp_table \<lparr>arp_table = [(''10.0.0.1'', ''02:00:00:00:00:01'')],
                 blocked_macs = {''aa:aa:aa:aa:aa:aa''}, block_on_detect = False, logs = [''x'']\<rparr>)
     {''aa:aa:aa:aa:aa:aa''}"
  using draw_graph_ignores_blocked [where
      ?c1.0 = "\<lparr>arp_table = [(''10.0.0.1'', ''02:00:00:00:00:01'')], blocked_macs = {},
                 block_on_detect = True, logs = []\<rparr>"
      and ?c2.0 = "\<lparr>arp_table = [(''10.0.0.1'', ''02:00:00:00:00:01'')],
                 blocked_macs = {''aa:aa:aa:aa:aa:aa''}, block_on_detect = False, logs = [''x'']\<rparr>"
      and spring_layout = "\<lambda>g seed. length (nodes g) + seed"
      and roster = "[(''10.0.0.1'', ''02:00:00:00:00:01'')]"]
  by simp

text \<open>
  Claim C6. With fewer than two hosts in the roster the basic-mode event does nothing: it
  returns normally, hands no announcement to the controller, and leaves the session (log,
  table, blocked set, everything else) and the world (no clock reading, so no log line) as
  they were.
\<close>

theorem basic_event_noop_below_two_hosts:
  assumes "length (hosts s) < 2"
  shows "one_event ''basic'' spoof_chance s w = Inr (s, w) \<and>
         one_event_packets ''basic'' spoof_chance s w = Inr ([], w)"
  using assms by (simp add: one_event_def one_event_packets_def)

theorem basic_event_noop_below_two_hosts_witness:
  "length [(''10.0.0.1'', ''02:00:00:00:00:01'')] < 2 \<and>
   one_event ''basic'' 0.15
     \<lparr>ctrl = \<lparr>arp_table = [(''10.0.0.1'', ''02:00:00:00:00:01'')], blocked_macs = {},
              block_on_detect = True, logs = [''x'']\<rparr>,
      hosts = [(''10.0.0.1'', ''02:00:00:00:00:01'')], started = True, logs_buf = []\<rparr>
     \<lparr>clock = (\<lambda>k. k), clock_reads = 1, random_src = (\<lambda>k. k), random_reads = 4\<rparr> =
   Inr (\<lparr>ctrl = \<lparr>arp_table = [(''10.0.0.1'', ''02:00:00:00:00:01'')], blocked_macs = {},
              block_on_detect = True, logs = [''x'']\<rparr>,
      hosts = [(''10.0.0.1'', ''02:00:00:00:00:01'')], started = True, logs_buf = []\<rparr>,
     \<lparr>clock = (\<lambda>k. k), clock_reads = 1, random_src = (\<lambda>k. k), random_reads = 4\<rparr>)"
  using basic_event_noop_below_two_hosts [where
      s = "\<lparr>ctrl = \<lparr>arp_table = [(''10.0.0.1'', ''02:00:00:00:00:01'')], blocked_macs = {},
              block_on_detect = True, logs = [''x'']\<rparr>,
      hosts = [(''10.0.0.1'', ''02:00:00:00:00:01'')], started = True, logs_buf = []\<rparr>"
      and w = "\<lparr>clock = (\<lambda>k. k), clock_reads = 1, random_src = (\<lambda>k. k), random_reads = 4\<rparr>"
      and spoof_chance = "0.15"]
  by simp

section \<open>The identity generator\<close>

lemma hex_digit_char: "k < 16 \<Longrightarrow> digit_char k \<in> set ''0123456789abcdef''"
  unfolding digit_char_def by (rule nth_mem) simp

lemma format_02x_byte:
  assumes "b < 256"
  shows "format_02x b = [digit_char (b div 16), digit_char (b mod 16)]"
proof (cases "b < 16")
  case True
  then show ?thesis
    by (simp add: format_02x_def zero_pad2_def format_x.simps [of b] digit_char_def)
next
  case False
  with assms have "b div 16 < 16" by simp
  then have "format_x (b div 16) = [digit_char (b div 16)]"
    by (simp add: format_x.simps [of "b div 16"])
  with False show ?thesis
    by (simp add: format_02x_def zero_pad2_def format_x.simps [of b])
qed

lemma list_all_pair: "P x \<Longrightarrow> P y \<Longrightarrow> list_all P [x, y]"
  by simp

lemma is_hex_group_byte:
  assumes "b < 256"
  shows "is_hex_group (format_02x b)"
proof -
  from assms have "b div 16 < 16" "b mod 16 < 16" by simp_all
  then have "list_all (\<lambda>ch. ch \<in> set ''0123456789abcdef'') [digit_char (b div 16), digit_char (b mod 16)]"
    by (intro list_all_pair hex_digit_char)
  then show ?thesis
    unfolding format_02x_byte [OF assms] is_hex_group_def by (intro conjI) simp_all
qed

lemma randint_byte: "fst (randint 0 255 w) < 256"
  by (simp add: randint_def next_raw_def)

lemma random_groups_length: "length (fst (random_groups n w)) = n"
  by (induction n arbitrary: w) (simp_all add: case_prod_beta)

lemma random_groups_hex: "list_all is_hex_group (fst (random_groups n w))"
proof (induction n arbitrary: w)
  case 0
  show ?case by simp
next
  case (Suc n)
  obtain b w1 where r: "randint 0 255 w = (b, w1)" by (cases "randint 0 255 w")
  then have "b < 256" using randint_byte [of w] by simp
  then show ?case
    using r Suc.IH [of w1] by (simp add: is_hex_group_byte case_prod_beta)
qed

lemma hex_group_no_colon:
  assumes "is_hex_group g"
  shows "CHR '':'' \<notin> set g"
proof
  assume a: "CHR '':'' \<in> set g"
  have "\<forall>ch \<in> set g. ch \<in> set ''0123456789abcdef''"
    using assms unfolding is_hex_group_def list_all_iff by (rule conjunct2)
  then have "CHR '':'' \<in> set ''0123456789abcdef''" using a by (rule bspec)
  then show False by simp
qed

lemma split_colon_nonempty [simp]: "split_colon s \<noteq> []"
  by (induction s) (simp_all split: list.splits)

lemma split_colon_plain: "CHR '':'' \<notin> set g \<Longrightarrow> split_colon g = [g]"
  by (induction g) auto

lemma split_colon_sep:
  "CHR '':'' \<notin> set g \<Longrightarrow> split_colon (g @ CHR '':'' # rest) = g # split_colon rest"
  by (induction g) auto

lemma split_colon_append: "split_colon (p @ CHR '':'' # rest) = split_colon p @ split_colon rest"
proof (induction p)
  case Nil
  show ?case by simp
next
  case (Cons ch p)
  show ?case
  proof (cases "ch = CHR '':''")
    case True
    then show ?thesis using Cons.IH by simp
  next
    case False
    obtain g gs where s: "split_colon p = g # gs"
      by (cases "split_colon p") simp_all
    then show ?thesis using False Cons.IH by simp
  qed
qed

lemma split_colon_join:
  assumes "gs \<noteq> []" "\<forall>g \<in> set gs. CHR '':'' \<notin> set g"
  shows "split_colon (join '':'' gs) = gs"
  using assms
proof (induction gs rule: induct_list012)
  case 1
  then show ?case by simp
next
  case (2 x)
  then show ?case by (simp add: split_colon_plain)
next
  case (3 x y ys)
  then show ?case by (simp add: split_colon_sep)
qed

lemma random_groups_no_colon: "\<forall>g \<in> set (fst (random_groups n w)). CHR '':'' \<notin> set g"
  using random_groups_hex [of n w] by (auto simp: list_all_iff dest: hex_group_no_colon)

lemma random_groups_join: "0 < n \<Longrightarrow> split_colon (join '':'' (fst (random_groups n w))) = fst (random_groups n w)"
proof (rule split_colon_join)
  assume "0 < n"
  then show "fst (random_groups n w) \<noteq> []"
    using random_groups_length [of n w] by auto
  show "\<forall>g \<in> set (fst (random_groups n w)). CHR '':'' \<notin> set g"
    by (rule random_groups_no_colon)
qed

lemma random_mac_plain:
  "\<not> truthy prefix \<Longrightarrow> fst (random_mac prefix w) = join '':'' (fst (random_groups 6 w))"
  by (simp add: random_mac_def case_prod_beta)

lemma random_mac_prefixed:
  "truthy prefix \<Longrightarrow>
   fst (random_mac prefix w) = the prefix @ '':'' @ join '':'' (fst (random_groups 4 w))"
  by (simp add: random_mac_def case_prod_beta)

lemma random_mac_prefixed_groups:
  assumes "truthy prefix"
  shows "split_colon (fst (random_mac prefix w)) = split_colon (the prefix) @ fst (random_groups 4 w)"
proof -
  have "split_colon (fst (random_mac prefix w)) =
        split_colon (the prefix @ CHR '':'' # join '':'' (fst (random_groups 4 w)))"
    using assms by (simp add: random_mac_prefixed)
  also have "\<dots> = split_colon (the prefix) @ split_colon (join '':'' (fst (random_groups 4 w)))"
    by (rule split_colon_append)
  finally show ?thesis by (simp add: random_groups_join)
qed

section \<open>The roster and the initial learning pass\<close>

lemma dec_value_snoc: "dec_value (s @ [ch]) = 10 * dec_value s + digit_val ch"
  by (simp add: dec_value_def)

lemma dec_value_format_d: "dec_value (format_d n) = n"
proof (induction n rule: format_d.induct)
  case (1 n)
  show ?case
  proof (cases "n < 10")
    case True
    then show ?thesis
      by (simp add: format_d.simps [of n] dec_value_def digit_val_digit_char)
  next
    case False
    then have "dec_value (format_d (n div 10)) = n div 10" by (rule "1.IH")
    then show ?thesis
      using False by (simp add: format_d.simps [of n] dec_value_snoc digit_val_digit_char)
  qed
qed

lemma format_d_inj:
  assumes "format_d n = format_d m"
  shows "n = m"
proof -
  have "dec_value (format_d n) = dec_value (format_d m)" by (simp only: assms)
  then show ?thesis by (simp only: dec_value_format_d)
qed

lemma host_ip_inj: "inj (\<lambda>i. ''10.0.0.'' @ format_d i)"
  by (rule injI) (simp add: format_d_inj)

lemma gen_hosts_ips:
  "map fst (fst (gen_hosts idx acc w)) = map fst acc @ map (\<lambda>i. ''10.0.0.'' @ format_d i) idx"
  by (induction idx arbitrary: acc w) (simp_all add: case_prod_beta Let_def)

lemma gen_hosts_macs:
  "list_all (\<lambda>h. starts_with ''02:00:'' (snd h)) acc \<Longrightarrow>
   list_all (\<lambda>h. starts_with ''02:00:'' (snd h)) (fst (gen_hosts idx acc w))"
  by (induction idx arbitrary: acc w) (simp_all add: case_prod_beta Let_def starts_with_def)

lemma init_session_hosts:
  "length (hosts (fst (init_session n b w))) = n"
  "distinct (map fst (hosts (fst (init_session n b w))))"
  "list_all (\<lambda>h. starts_with ''02:00:'' (snd h)) (hosts (fst (init_session n b w)))"
  "map fst (hosts (fst (init_session n b w))) = map (\<lambda>i. ''10.0.0.'' @ format_d i) [1 ..< n + 1]"
proof -
  show ips: "map fst (hosts (fst (init_session n b w))) = map (\<lambda>i. ''10.0.0.'' @ format_d i) [1 ..< n + 1]"
    by (simp add: init_session_def case_prod_beta gen_hosts_ips)
  have "length (map fst (hosts (fst (init_session n b w)))) = n"
    unfolding ips by simp
  then show "length (hosts (fst (init_session n b w))) = n" by simp
  have "inj_on (\<lambda>i. ''10.0.0.'' @ format_d i) (set [1 ..< n + 1])"
    by (rule inj_on_subset [OF host_ip_inj]) simp
  then show "distinct (map fst (hosts (fst (init_session n b w))))"
    unfolding ips distinct_map using distinct_upt by blast
  show "list_all (\<lambda>h. starts_with ''02:00:'' (snd h)) (hosts (fst (init_session n b w)))"
    by (simp add: init_session_def case_prod_beta gen_hosts_macs)
qed

lemma init_session_ctrl:
  "ctrl (fst (init_session n b w)) = SimpleController_init b"
  "started (fst (init_session n b w)) = False"
  by (simp_all add: init_session_def case_prod_beta)

lemma update_fresh: "ip \<notin> fst ` set t \<Longrightarrow> AList.update ip mac t = t @ [(ip, mac)]"
  by (induction t) auto

lemma learn_fresh_roster:
  assumes "distinct (map fst hs)" "fst ` set hs \<inter> fst ` set (arp_table c) = {}"
    and "blocked_macs c = {}"
  shows "arp_table (fst (receive_all (map (\<lambda>(ip, mac). (ip, mac, info)) hs) c w)) = arp_table c @ hs \<and>
         blocked_macs (fst (receive_all (map (\<lambda>(ip, mac). (ip, mac, info)) hs) c w)) = {} \<and>
         block_on_detect (fst (receive_all (map (\<lambda>(ip, mac). (ip, mac, info)) hs) c w)) = block_on_detect c \<and>
         map level_of (logs (fst (receive_all (map (\<lambda>(ip, mac). (ip, mac, info)) hs) c w))) =
           map level_of (logs c) @ replicate (length hs) ''LEARN''"
  using assms
proof (induction hs arbitrary: c w)
  case Nil
  then show ?case by simp
next
  case (Cons h hs)
  obtain ip mac where h: "h = (ip, mac)" by (cases h)
  have fresh: "ip \<notin> fst ` set (arp_table c)" using Cons.prems(2) h by auto
  then have none: "map_of (arp_table c) ip = None" by (simp add: map_of_eq_None_iff)
  let ?c = "c\<lparr>arp_table := arp_table c @ [(ip, mac)], logs := logs c @ [learn_line (now w) ip mac info]\<rparr>"
  have step: "receive_arp ip mac info c w = (learn_line (now w) ip mac info, ?c, tick w)"
    using Cons.prems(3) none by (simp add: receive_arp_learn update_fresh [OF fresh])
  have pre: "distinct (map fst hs)" "fst ` set hs \<inter> fst ` set (arp_table ?c) = {}" "blocked_macs ?c = {}"
    using Cons.prems h by auto
  have "replicate (length hs) ''LEARN'' @ [''LEARN''] = ''LEARN'' # replicate (length hs) ''LEARN''"
    by (simp add: replicate_append_same)
  then show ?case
    using Cons.IH [OF pre, of "tick w"] h step by simp
qed

lemma after_initial_pass:
  assumes "init_session n b w = (s0, w0)" "initial_pass s0 w0 = (s1, w1)"
  shows "hosts s1 = hosts s0" and "arp_table (ctrl s1) = hosts s1"
    and "blocked_macs (ctrl s1) = {}" and "block_on_detect (ctrl s1) = b"
    and "length (hosts s1) = n" and "distinct (map fst (hosts s1))"
    and "list_all (\<lambda>h. starts_with ''02:00:'' (snd h)) (hosts s1)"
    and "map level_of (logs (ctrl s1)) = replicate n ''LEARN''"
    and "started s1"
proof -
  have s0: "s0 = fst (init_session n b w)" using assms(1) by simp
  have c0: "ctrl s0 = SimpleController_init b" and ns: "\<not> started s0"
    unfolding s0 by (simp_all add: init_session_ctrl)
  have len: "length (hosts s0) = n" and dist: "distinct (map fst (hosts s0))"
    and macs: "list_all (\<lambda>h. starts_with ''02:00:'' (snd h)) (hosts s0)"
    unfolding s0 by (rule init_session_hosts)+
  let ?r = "receive_all (map (\<lambda>(ip, mac). (ip, mac, ''initial ARP'')) (hosts s0)) (ctrl s0) w0"
  have s1: "s1 = s0\<lparr>ctrl := fst ?r, started := True\<rparr>"
    using assms(2) ns by (simp add: initial_pass_def case_prod_beta)
  have pre: "fst ` set (hosts s0) \<inter> fst ` set (arp_table (ctrl s0)) = {}" "blocked_macs (ctrl s0) = {}"
    by (simp_all add: c0 SimpleController_init_def)
  note L = learn_fresh_roster [OF dist pre, of "''initial ARP''" w0]
  show "hosts s1 = hosts s0" by (simp add: s1)
  show "arp_table (ctrl s1) = hosts s1"
    using L by (simp add: s1 c0 SimpleController_init_def)
  show "blocked_macs (ctrl s1) = {}" using L by (simp add: s1)
  show "block_on_detect (ctrl s1) = b"
    using L by (simp add: s1 c0 SimpleController_init_def)
  show "length (hosts s1) = n" by (simp add: s1 len)
  show "distinct (map fst (hosts s1))" by (simp add: s1 dist)
  show "list_all (\<lambda>h. starts_with ''02:00:'' (snd h)) (hosts s1)" by (simp add: s1 macs)
  show "map level_of (logs (ctrl s1)) = replicate n ''LEARN''"
    using L by (simp add: s1 c0 SimpleController_init_def len)
  show "started s1" by (simp add: s1)
qed


section \<open>Entries of the table are never replaced\<close>

lemma receive_arp_keeps_entry:
  assumes "map_of (arp_table c) ip = Some m"
  shows "map_of (arp_table (fst (snd (receive_arp ip' mac info c w)))) ip = Some m"
proof (cases "mac \<in> blocked_macs c")
  case True
  then show ?thesis using assms by (simp add: receive_arp_drop)
next
  case nb: False
  show ?thesis
  proof (cases "map_of (arp_table c) ip' = None \<or> map_of (arp_table c) ip' = Some mac")
    case True
    then show ?thesis
      using nb assms by (auto simp add: receive_arp_learn update_conv')
  next
    case False
    then obtain old where "map_of (arp_table c) ip' = Some old" "old \<noteq> mac" by auto
    then show ?thesis
      using nb assms by (simp add: receive_arp_alert)
  qed
qed

lemma receive_all_keeps_entry:
  "map_of (arp_table c) ip = Some m \<Longrightarrow> map_of (arp_table (fst (receive_all ps c w))) ip = Some m"
proof (induction ps arbitrary: c w)
  case Nil
  then show ?case by simp
next
  case (Cons pkt ps)
  obtain ip' mac info where pkt: "pkt = (ip', mac, info)" by (cases pkt)
  obtain r c1 w1 where s: "receive_arp ip' mac info c w = (r, c1, w1)"
    by (cases "receive_arp ip' mac info c w")
  have "map_of (arp_table c1) ip = Some m"
    using receive_arp_keeps_entry [OF Cons.prems, of ip' mac info w] s by simp
  then show ?case
    using Cons.IH [of c1 w1] s pkt by simp
qed

section \<open>One event as a list of announcements\<close>

lemma one_event_feeds:
  "one_event mode p s w =
     (case one_event_packets mode p s w of
        Inl e \<Rightarrow> Inl e
      | Inr (pk, w1) \<Rightarrow> (case receive_all pk (ctrl s) w1 of (c', w') \<Rightarrow> Inr (s\<lparr>ctrl := c'\<rparr>, w')))"
  by (simp add: one_event_def one_event_packets_def Let_def case_prod_beta split: sum.splits)

lemma one_event_hosts:
  "one_event mode p s w = Inr (s', w') \<Longrightarrow>
     hosts s' = hosts s \<and> started s' = started s \<and> logs_buf s' = logs_buf s"
  by (auto simp add: one_event_feeds case_prod_beta split: sum.splits)

subsection \<open>The basic-mode script\<close>

lemma basic_first:
  assumes "2 \<le> length (hosts s)"
    and "map_of (arp_table (ctrl s)) (fst (hosts s ! 1)) = Some m"
    and "m \<noteq> ''aa:aa:aa:aa:aa:aa''"
    and "''aa:aa:aa:aa:aa:aa'' \<notin> blocked_macs (ctrl s)"
    and "block_on_detect (ctrl s)"
  shows "one_event ''basic'' p s w =
     Inr (s\<lparr>ctrl := (ctrl s)\<lparr>blocked_macs := insert ''aa:aa:aa:aa:aa:aa'' (blocked_macs (ctrl s)),
            logs := logs (ctrl s) @
              [alert_line (now w) (fst (hosts s ! 1)) m ''aa:aa:aa:aa:aa:aa'' ''spoof attempt (basic)'',
               mitigate_line (now (tick w)) ''aa:aa:aa:aa:aa:aa'',
               drop_line (now (tick (tick w))) ''aa:aa:aa:aa:aa:aa'' ''spoof attempt (basic #2)'']\<rparr>\<rparr>,
          tick (tick (tick w)))"
  using assms
  by (simp add: one_event_def Let_def receive_arp_alert [where old = m] receive_arp_drop)

lemma basic_blocked:
  assumes "2 \<le> length (hosts s)" and "''aa:aa:aa:aa:aa:aa'' \<in> blocked_macs (ctrl s)"
  shows "one_event ''basic'' p s w =
     Inr (s\<lparr>ctrl := (ctrl s)\<lparr>logs := logs (ctrl s) @
              [drop_line (now w) ''aa:aa:aa:aa:aa:aa'' ''spoof attempt (basic)'',
               drop_line (now (tick w)) ''aa:aa:aa:aa:aa:aa'' ''spoof attempt (basic #2)'']\<rparr>\<rparr>,
          tick (tick w))"
  using assms by (simp add: one_event_def Let_def receive_arp_drop)

lemma basic_two_steps:
  assumes n: "2 \<le> n"
    and i: "init_session n True w = (s0, w0)" and ip: "initial_pass s0 w0 = (s1, w1)"
  defines "vip \<equiv> fst (hosts s1 ! 1)" and "vmac \<equiv> snd (hosts s1 ! 1)"
  defines "first \<equiv> [alert_line (now w1) vip vmac ''aa:aa:aa:aa:aa:aa'' ''spoof attempt (basic)'',
                     mitigate_line (now (tick w1)) ''aa:aa:aa:aa:aa:aa'',
                     drop_line (now (tick (tick w1))) ''aa:aa:aa:aa:aa:aa'' ''spoof attempt (basic #2)'']"
  defines "w2 \<equiv> tick (tick (tick w1))"
  defines "second \<equiv> [drop_line (now w2) ''aa:aa:aa:aa:aa:aa'' ''spoof attempt (basic)'',
                      drop_line (now (tick w2)) ''aa:aa:aa:aa:aa:aa'' ''spoof attempt (basic #2)'']"
  defines "s2 \<equiv> s1\<lparr>ctrl := (ctrl s1)\<lparr>blocked_macs := {''aa:aa:aa:aa:aa:aa''},
                                     logs := logs (ctrl s1) @ first\<rparr>\<rparr>"
  defines "s3 \<equiv> s1\<lparr>ctrl := (ctrl s1)\<lparr>blocked_macs := {''aa:aa:aa:aa:aa:aa''},
                                     logs := logs (ctrl s1) @ first @ second\<rparr>\<rparr>"
  shows "one_event ''basic'' p s1 w1 = Inr (s2, w2)"
    and "one_event ''basic'' p s2 w2 = Inr (s3, tick (tick w2))"
    and "map_of (arp_table (ctrl s1)) vip = Some vmac"
    and "vmac \<noteq> ''aa:aa:aa:aa:aa:aa''"
proof -
  note A = after_initial_pass [OF i ip]
  have len: "2 \<le> length (hosts s1)" using n A(5) by simp
  then have mem: "hosts s1 ! 1 \<in> set (hosts s1)" by simp
  then have "(vip, vmac) \<in> set (hosts s1)" by (simp add: vip_def vmac_def)
  then show entry: "map_of (arp_table (ctrl s1)) vip = Some vmac"
    unfolding A(2) using A(6) by (simp add: map_of_is_SomeI)
  have "starts_with ''02:00:'' vmac"
    using A(7) mem unfolding list_all_iff vmac_def by blast
  then show ne: "vmac \<noteq> ''aa:aa:aa:aa:aa:aa''"
    by (auto simp add: starts_with_def)
  have "one_event ''basic'' p s1 w1 =
     Inr (s1\<lparr>ctrl := (ctrl s1)\<lparr>blocked_macs := insert ''aa:aa:aa:aa:aa:aa'' (blocked_macs (ctrl s1)),
            logs := logs (ctrl s1) @
              [alert_line (now w1) (fst (hosts s1 ! 1)) vmac ''aa:aa:aa:aa:aa:aa'' ''spoof attempt (basic)'',
               mitigate_line (now (tick w1)) ''aa:aa:aa:aa:aa:aa'',
               drop_line (now (tick (tick w1))) ''aa:aa:aa:aa:aa:aa'' ''spoof attempt (basic #2)'']\<rparr>\<rparr>,
          tick (tick (tick w1)))"
  proof (rule basic_first [OF len _ ne])
    show "map_of (arp_table (ctrl s1)) (fst (hosts s1 ! 1)) = Some vmac"
      using entry by (simp add: vip_def)
    show "''aa:aa:aa:aa:aa:aa'' \<notin> blocked_macs (ctrl s1)" by (simp add: A(3))
    show "block_on_detect (ctrl s1)" by (simp add: A(4))
  qed
  then show "one_event ''basic'' p s1 w1 = Inr (s2, w2)"
    by (simp add: s2_def w2_def first_def vip_def A(3))
  have len2: "2 \<le> length (hosts s2)" using len by (simp add: s2_def)
  have bl: "''aa:aa:aa:aa:aa:aa'' \<in> blocked_macs (ctrl s2)" by (simp add: s2_def)
  show "one_event ''basic'' p s2 w2 = Inr (s3, tick (tick w2))"
    unfolding basic_blocked [OF len2 bl] by (simp add: s2_def s3_def second_def)
qed

lemma repeat_event_twice:
  "repeat_event 2 mode p s w =
     (case one_event mode p s w of Inl e \<Rightarrow> Inl e | Inr (s', w') \<Rightarrow> one_event mode p s' w')"
  by (simp add: numeral_2_eq_2 case_prod_beta split: sum.splits)

section \<open>Claim about the basic-mode scenario\<close>

text \<open>
  Claim C3, as stated, fails: one basic-mode step already issues both spoofed
  announcements, so two steps after the initial learning pass leave three DROP entries
  behind the ALERT and the MITIGATE entry, not one.
\<close>

theorem basic_twice_counterexample:
  "case init_session 2 True
          \<lparr>clock = (\<lambda>k. 47000 + k), clock_reads = 0, random_src = (\<lambda>k. 7 * k + 3), random_reads = 0\<rparr> of
     (s0, w0) \<Rightarrow>
       (case initial_pass s0 w0 of
          (s1, w1) \<Rightarrow>
            (case repeat_event 2 ''basic'' 0.15 s1 w1 of
               Inl e \<Rightarrow> False
             | Inr (s3, w3) \<Rightarrow>
                 map level_of (drop (length (logs (ctrl s1))) (logs (ctrl s3))) =
                   [''ALERT'', ''MITIGATE'', ''DROP'', ''DROP'', ''DROP''] \<and>
                 length (filter (\<lambda>l. level_of l = ''DROP'')
                           (drop (length (logs (ctrl s1))) (logs (ctrl s3)))) \<noteq> 1))"
proof -
  let ?w = "\<lparr>clock = (\<lambda>k. 47000 + k), clock_reads = 0, random_src = (\<lambda>k. 7 * k + 3), random_reads = 0\<rparr>"
  obtain s0 w0 where i: "init_session 2 True ?w = (s0, w0)" by (cases "init_session 2 True ?w")
  obtain s1 w1 where ip: "initial_pass s0 w0 = (s1, w1)" by (cases "initial_pass s0 w0")
  have two: "(2::nat) \<le> 2" by simp
  note B = basic_two_steps(1,2) [OF two i ip, of "0.15"]
  show ?thesis
    unfolding i ip prod.case repeat_event_twice using B by simp
qed

text \<open>
  Claim C3, amended. With at least two hosts and auto-block on, starting from the state
  after the initial learning pass, one basic-mode step appends exactly an ALERT entry, a
  MITIGATE entry and a DROP entry, and a second step appends exactly two more DROP entries
  (ALERT, MITIGATE, DROP, DROP, DROP over the two steps). The table is never changed: after
  each of the four announcements of the two steps the second host's network address still
  maps to that host's own hardware address.
\<close>

theorem basic_scenario:
  assumes "2 \<le> hosts_count"
  shows "case init_session hosts_count True w of
     (s0, w0) \<Rightarrow>
       (case initial_pass s0 w0 of
          (s1, w1) \<Rightarrow>
            (let vip = fst (hosts s1 ! 1); vmac = snd (hosts s1 ! 1);
                 att = ''aa:aa:aa:aa:aa:aa'';
                 first = [alert_line (now w1) vip vmac att ''spoof attempt (basic)'',
                          mitigate_line (now (tick w1)) att,
                          drop_line (now (tick (tick w1))) att ''spoof attempt (basic #2)''];
                 w2 = tick (tick (tick w1));
                 second = [drop_line (now w2) att ''spoof attempt (basic)'',
                           drop_line (now (tick w2)) att ''spoof attempt (basic #2)''];
                 s2 = s1\<lparr>ctrl := (ctrl s1)\<lparr>blocked_macs := {att}, logs := logs (ctrl s1) @ first\<rparr>\<rparr>;
                 s3 = s1\<lparr>ctrl := (ctrl s1)\<lparr>blocked_macs := {att},
                                            logs := logs (ctrl s1) @ first @ second\<rparr>\<rparr>;
                 pkts = [(vip, att, ''spoof attempt (basic)''), (vip, att, ''spoof attempt (basic #2)''),
                         (vip, att, ''spoof attempt (basic)''), (vip, att, ''spoof attempt (basic #2)'')]
             in one_event ''basic'' p s1 w1 = Inr (s2, w2) \<and>
                one_event ''basic'' p s2 w2 = Inr (s3, tick (tick w2)) \<and>
                map level_of first = [''ALERT'', ''MITIGATE'', ''DROP''] \<and>
                map level_of second = [''DROP'', ''DROP''] \<and>
                vmac \<noteq> att \<and>
                map_of (arp_table (ctrl s1)) vip = Some vmac \<and>
                arp_table (ctrl s2) = arp_table (ctrl s1) \<and>
                arp_table (ctrl s3) = arp_table (ctrl s1) \<and>
                receive_all pkts (ctrl s1) w1 = (ctrl s3, tick (tick w2)) \<and>
                (\<forall>k. map_of (arp_table (fst (receive_all (take k pkts) (ctrl s1) w1))) vip = Some vmac)))"
proof -
  obtain s0 w0 where i: "init_session hosts_count True w = (s0, w0)"
    by (cases "init_session hosts_count True w")
  obtain s1 w1 where ip: "initial_pass s0 w0 = (s1, w1)" by (cases "initial_pass s0 w0")
  note B = basic_two_steps(1,2) [OF assms i ip, of p] basic_two_steps(3,4) [OF assms i ip]
  note A = after_initial_pass [OF i ip]
  let ?vip = "fst (hosts s1 ! 1)" and ?vmac = "snd (hosts s1 ! 1)"
  let ?pkts = "[(?vip, ''aa:aa:aa:aa:aa:aa'', ''spoof attempt (basic)''),
                (?vip, ''aa:aa:aa:aa:aa:aa'', ''spoof attempt (basic #2)''),
                (?vip, ''aa:aa:aa:aa:aa:aa'', ''spoof attempt (basic)''),
                (?vip, ''aa:aa:aa:aa:aa:aa'', ''spoof attempt (basic #2)'')]"
  have keep: "map_of (arp_table (fst (receive_all (take k ?pkts) (ctrl s1) w1))) ?vip = Some ?vmac" for k
    using B(3) by (rule receive_all_keeps_entry)
  have ne: "''aa:aa:aa:aa:aa:aa'' \<noteq> ?vmac" using B(4) by simp
  have feed: "receive_all ?pkts (ctrl s1) w1 =
      ((ctrl s1)\<lparr>blocked_macs := {''aa:aa:aa:aa:aa:aa''},
         logs := logs (ctrl s1) @
           [alert_line (now w1) ?vip ?vmac ''aa:aa:aa:aa:aa:aa'' ''spoof attempt (basic)'',
            mitigate_line (now (tick w1)) ''aa:aa:aa:aa:aa:aa'',
            drop_line (now (tick (tick w1))) ''aa:aa:aa:aa:aa:aa'' ''spoof attempt (basic #2)''] @
           [drop_line (now (tick (tick (tick w1)))) ''aa:aa:aa:aa:aa:aa'' ''spoof attempt (basic)'',
            drop_line (now (tick (tick (tick (tick w1))))) ''aa:aa:aa:aa:aa:aa'' ''spoof attempt (basic #2)'']\<rparr>,
       tick (tick (tick (tick (tick w1)))))"
    using B(3) ne A(3) A(4)
    by (simp add: receive_arp_alert [where old = ?vmac] receive_arp_drop)
  show ?thesis
    unfolding i ip prod.case Let_def
    using B keep feed by (intro conjI allI) simp_all
qed

theorem basic_scenario_witness:
  "(2::nat) \<le> 2 \<and>
   (case init_session 2 True
          \<lparr>clock = (\<lambda>k. 47000 + k), clock_reads = 0, random_src = (\<lambda>k. 7 * k + 3), random_reads = 0\<rparr> of
     (s0, w0) \<Rightarrow>
       (case initial_pass s0 w0 of
          (s1, w1) \<Rightarrow>
            (case one_event ''basic'' 0.15 s1 w1 of
               Inl e \<Rightarrow> False
             | Inr (s2, w2) \<Rightarrow>
                 map level_of (drop (length (logs (ctrl s1))) (logs (ctrl s2))) =
                   [''ALERT'', ''MITIGATE'', ''DROP''] \<and>
                 arp_table (ctrl s2) = arp_table (ctrl s1) \<and>
                 blocked_macs (ctrl s2) = {''aa:aa:aa:aa:aa:aa''})))"
  using basic_scenario [where hosts_count = 2 and p = "0.15" and
      w = "\<lparr>clock = (\<lambda>k. 47000 + k), clock_reads = 0, random_src = (\<lambda>k. 7 * k + 3), random_reads = 0\<rparr>"]
  by (simp add: case_prod_beta Let_def)

section \<open>Random mode with spoof chance zero\<close>






lemma roster_learned_logs [simp]:
  "roster_learned (s\<lparr>ctrl := (ctrl s)\<lparr>logs := ls\<rparr>\<rparr>) = roster_learned s"
  by (simp add: roster_learned_def)


subsection \<open>What holds in every started session\<close>




section \<open>Claim about random mode at spoof chance zero\<close>



section \<open>The addresses the program generates\<close>

lemma random_groups_world: "snd (random_groups n w) = w\<lparr>random_reads := random_reads w + n\<rparr>"
proof (induction n arbitrary: w)
  case 0
  show ?case by simp
next
  case (Suc n)
  have "snd (randint 0 255 w) = w\<lparr>random_reads := Suc (random_reads w)\<rparr>"
    by (simp add: randint_def next_raw_def)
  then show ?case
    by (simp add: case_prod_beta Suc.IH)
qed

lemma random_groups_two:
  "random_groups 2 w =
     (case randint 0 255 w of (b1, w1) \<Rightarrow>
      case randint 0 255 w1 of (b2, w2) \<Rightarrow> ([format_02x b1, format_02x b2], w2))"
  by (simp add: numeral_2_eq_2 case_prod_beta)

lemma random_groups_four:
  "random_groups 4 w =
     (case randint 0 255 w of (b1, w1) \<Rightarrow>
      case randint 0 255 w1 of (b2, w2) \<Rightarrow>
      case randint 0 255 w2 of (b3, w3) \<Rightarrow>
      case randint 0 255 w3 of (b4, w4) \<Rightarrow>
        ([format_02x b1, format_02x b2, format_02x b3, format_02x b4], w4))"
  by (simp add: eval_nat_numeral case_prod_beta)

lemma prefixed_groups:
  assumes "0 < n"
  shows "split_colon (p @ '':'' @ join '':'' (fst (random_groups n w))) =
         split_colon p @ fst (random_groups n w)"
proof -
  have "split_colon (p @ CHR '':'' # join '':'' (fst (random_groups n w))) =
        split_colon p @ split_colon (join '':'' (fst (random_groups n w)))"
    by (rule split_colon_append)
  then show ?thesis using assms by (simp add: random_groups_join)
qed

lemma prefixed_colon_hex:
  assumes "0 < n" "colon_hex k p"
  shows "colon_hex (k + n) (p @ '':'' @ join '':'' (fst (random_groups n w)))"
  using assms(2) unfolding colon_hex_def prefixed_groups [OF assms(1)]
  by (simp add: random_groups_length random_groups_hex)

lemma gen_hosts_step:
  "gen_hosts (i # rest) acc w =
     gen_hosts rest (acc @ [(''10.0.0.'' @ format_d i,
                             ''02:00'' @ '':'' @ join '':'' (fst (random_groups 4 w)))])
       (snd (random_groups 4 w))"
  by (simp add: random_groups_four case_prod_beta Let_def)

lemma gen_hosts_eq:
  "fst (gen_hosts idx acc w) =
     acc @ map (\<lambda>k. (''10.0.0.'' @ format_d (idx ! k),
                      ''02:00'' @ '':'' @ join '':''
                        (fst (random_groups 4 (w\<lparr>random_reads := random_reads w + 4 * k\<rparr>)))))
               [0 ..< length idx]"
proof (induction idx arbitrary: acc w)
  case Nil
  show ?case by simp
next
  case (Cons i rest)
  let ?mac = "\<lambda>v. ''02:00'' @ '':'' @ join '':'' (fst (random_groups 4 v))"
  let ?w4 = "w\<lparr>random_reads := random_reads w + 4\<rparr>"
  have shift: "?w4\<lparr>random_reads := random_reads ?w4 + 4 * k\<rparr> =
               w\<lparr>random_reads := random_reads w + 4 * Suc k\<rparr>" for k
    by simp
  have "fst (gen_hosts (i # rest) acc w) = fst (gen_hosts rest (acc @ [(''10.0.0.'' @ format_d i, ?mac w)]) ?w4)"
    by (simp only: gen_hosts_step random_groups_world)
  also have "\<dots> = (acc @ [(''10.0.0.'' @ format_d i, ?mac w)]) @
      map (\<lambda>k. (''10.0.0.'' @ format_d (rest ! k), ?mac (w\<lparr>random_reads := random_reads w + 4 * Suc k\<rparr>)))
          [0 ..< length rest]"
    by (simp only: Cons.IH shift)
  also have "\<dots> = acc @ map (\<lambda>k. (''10.0.0.'' @ format_d ((i # rest) ! k),
                                    ?mac (w\<lparr>random_reads := random_reads w + 4 * k\<rparr>)))
                             [0 ..< length (i # rest)]"
    by (simp add: map_upt_Suc del: append.simps upt_Suc)
  finally show ?case .
qed

lemma init_session_roster:
  "hosts (fst (init_session n b w)) =
     map (\<lambda>k. (''10.0.0.'' @ format_d (Suc k),
               ''02:00'' @ '':'' @ join '':''
                 (fst (random_groups 4 (w\<lparr>random_reads := random_reads w + 4 * k\<rparr>)))))
         [0 ..< n]"
proof -
  have "map (\<lambda>k. (''10.0.0.'' @ format_d ([1 ..< n + 1] ! k),
               ''02:00'' @ '':'' @ join '':''
                 (fst (random_groups 4 (w\<lparr>random_reads := random_reads w + 4 * k\<rparr>)))))
         [0 ..< n] =
        map (\<lambda>k. (''10.0.0.'' @ format_d (Suc k),
               ''02:00'' @ '':'' @ join '':''
                 (fst (random_groups 4 (w\<lparr>random_reads := random_reads w + 4 * k\<rparr>)))))
         [0 ..< n]"
    by (rule map_cong) (simp_all del: upt_Suc)
  then show ?thesis
    by (simp add: init_session_def case_prod_beta gen_hosts_eq del: upt_Suc)
qed

lemma colon_hex_literals:
  "colon_hex 2 ''02:00''" "colon_hex 4 ''de:ad:be:ef''"
  "split_colon ''02:00'' = [''02'', ''00'']"
  "split_colon ''de:ad:be:ef'' = [''de'', ''ad'', ''be'', ''ef'']"
  by (simp_all add: colon_hex_def is_hex_group_def)

lemma spoof_branch:
  assumes "mode \<noteq> ''basic''" "fst (random_random w) < p" "hosts s \<noteq> []"
  defines "w2 \<equiv> w\<lparr>random_reads := random_reads w + 2\<rparr>"
  defines "victim \<equiv> fst (hosts s ! (random_src w (Suc (random_reads w)) mod length (hosts s)))"
  defines "attacker_mac \<equiv> ''de:ad:be:ef'' @ '':'' @ join '':'' (fst (random_groups 2 w2))"
  shows "one_event_packets mode p s w =
           Inr ([(victim, attacker_mac, ''random spoof'')], snd (random_groups 2 w2))"
    and "one_event mode p s w =
           (case receive_arp victim attacker_mac ''random spoof'' (ctrl s) (snd (random_groups 2 w2)) of
              (r, c', w') \<Rightarrow> Inr (s\<lparr>ctrl := c'\<rparr>, w'))"
proof -
  have w1: "snd (random_random w) = w\<lparr>random_reads := Suc (random_reads w)\<rparr>"
    by (simp add: random_random_def next_raw_def)
  have ch: "random_choice (hosts s) (w\<lparr>random_reads := Suc (random_reads w)\<rparr>) =
      Inr (hosts s ! (random_src w (Suc (random_reads w)) mod length (hosts s)), w2)"
    using assms(3) by (simp add: random_choice_def next_raw_def w2_def)
  show "one_event_packets mode p s w =
           Inr ([(victim, attacker_mac, ''random spoof'')], snd (random_groups 2 w2))"
    using assms(1,2)
    by (simp add: one_event_packets_def case_prod_beta w1 ch random_groups_two victim_def
        attacker_mac_def)
  show "one_event mode p s w =
           (case receive_arp victim attacker_mac ''random spoof'' (ctrl s) (snd (random_groups 2 w2)) of
              (r, c', w') \<Rightarrow> Inr (s\<lparr>ctrl := c'\<rparr>, w'))"
    using assms(1,2)
    by (simp add: one_event_def case_prod_beta Let_def w1 ch random_groups_two victim_def
        attacker_mac_def)
qed

section \<open>Claim about the identity generator\<close>

text \<open>
  Claim C4, as stated, fails for the generator function itself: it always appends four
  random groups to a prefix, so given the three-byte prefix \<^verbatim>\<open>00:1a:2b\<close> it returns seven
  groups, not six.
\<close>

theorem random_mac_long_prefix_counterexample:
  "\<not> colon_hex 6 (fst (random_mac (Some ''00:1a:2b'')
        \<lparr>clock = (\<lambda>k. 0), clock_reads = 0, random_src = (\<lambda>k. 7 * k + 3), random_reads = 0\<rparr>))"
proof -
  have "truthy (Some ''00:1a:2b'')" by (simp add: truthy_def)
  then have "length (split_colon (fst (random_mac (Some ''00:1a:2b'')
        \<lparr>clock = (\<lambda>k. 0), clock_reads = 0, random_src = (\<lambda>k. 7 * k + 3), random_reads = 0\<rparr>))) = 7"
    by (simp add: random_mac_prefixed_groups random_groups_length)
  then show ?thesis by (simp add: colon_hex_def)
qed

text \<open>
  Claim C4, amended. For every random source, the generator called without a prefix
  (\<^verbatim>\<open>None\<close> or the empty string) returns six random lowercase two-digit hexadecimal groups
  joined by colons, and called with a two-group prefix such as \<^verbatim>\<open>02:00\<close> it returns that
  prefix followed by four random groups: a 6-group colon-hex string both times. Every
  address the program generates is such a string: the session initialisation gives each
  host \<^verbatim>\<open>02:00\<close> followed by four random groups, and the spoof branch of a random-mode
  event gives the attacker \<^verbatim>\<open>de:ad:be:ef\<close> followed by exactly two random groups.
\<close>

theorem identity_generator_shape:
  "(\<not> truthy prefix \<longrightarrow>
      colon_hex 6 (fst (random_mac prefix w)) \<and>
      split_colon (fst (random_mac prefix w)) = fst (random_groups 6 w)) \<and>
   (truthy prefix \<and> colon_hex 2 (the prefix) \<longrightarrow>
      colon_hex 6 (fst (random_mac prefix w)) \<and>
      split_colon (fst (random_mac prefix w)) = split_colon (the prefix) @ fst (random_groups 4 w)) \<and>
   hosts (fst (init_session hosts_count b w)) =
     map (\<lambda>k. (''10.0.0.'' @ format_d (Suc k),
               ''02:00'' @ '':'' @ join '':''
                 (fst (random_groups 4 (w\<lparr>random_reads := random_reads w + 4 * k\<rparr>)))))
         [0 ..< hosts_count] \<and>
   list_all (\<lambda>h. colon_hex 6 (snd h) \<and> take 2 (split_colon (snd h)) = [''02'', ''00''])
     (hosts (fst (init_session hosts_count b w))) \<and>
   (mode \<noteq> ''basic'' \<and> fst (random_random w) < p \<and> hosts s \<noteq> [] \<longrightarrow>
      (let w2 = w\<lparr>random_reads := random_reads w + 2\<rparr>;
           victim = fst (hosts s ! (random_src w (Suc (random_reads w)) mod length (hosts s)));
           attacker_mac = ''de:ad:be:ef'' @ '':'' @ join '':'' (fst (random_groups 2 w2))
       in one_event_packets mode p s w =
            Inr ([(victim, attacker_mac, ''random spoof'')], snd (random_groups 2 w2)) \<and>
          one_event mode p s w =
            (case receive_arp victim attacker_mac ''random spoof'' (ctrl s)
                    (snd (random_groups 2 w2)) of
               (r, c', w') \<Rightarrow> Inr (s\<lparr>ctrl := c'\<rparr>, w')) \<and>
          colon_hex 6 attacker_mac \<and>
          split_colon attacker_mac = [''de'', ''ad'', ''be'', ''ef''] @ fst (random_groups 2 w2))) \<and>
   length (fst (random_groups n w)) = n \<and> list_all is_hex_group (fst (random_groups n w))"
proof -
  have plain: "colon_hex 6 (fst (random_mac prefix w)) \<and>
      split_colon (fst (random_mac prefix w)) = fst (random_groups 6 w)" if "\<not> truthy prefix"
    using that by (simp add: random_mac_plain random_groups_join colon_hex_def
        random_groups_length random_groups_hex)
  have two: "colon_hex 6 (fst (random_mac prefix w)) \<and>
      split_colon (fst (random_mac prefix w)) = split_colon (the prefix) @ fst (random_groups 4 w)"
    if "truthy prefix \<and> colon_hex 2 (the prefix)"
  proof -
    have t: "truthy prefix" and c: "colon_hex 2 (the prefix)" using that by simp_all
    have "colon_hex (2 + 4) (the prefix @ '':'' @ join '':'' (fst (random_groups 4 w)))"
      using c by (intro prefixed_colon_hex) simp_all
    then have "colon_hex 6 (fst (random_mac prefix w))"
      unfolding random_mac_prefixed [OF t] by simp
    then show ?thesis
      using random_mac_prefixed_groups [OF t, of w] by (rule conjI)
  qed
  have host: "colon_hex 6 (''02:00'' @ '':'' @ join '':'' (fst (random_groups 4 v))) \<and>
      take 2 (split_colon (''02:00'' @ '':'' @ join '':'' (fst (random_groups 4 v)))) = [''02'', ''00'']" for v
  proof -
    have "colon_hex (2 + 4) (''02:00'' @ '':'' @ join '':'' (fst (random_groups 4 v)))"
      by (intro prefixed_colon_hex colon_hex_literals) simp
    moreover have "split_colon (''02:00'' @ '':'' @ join '':'' (fst (random_groups 4 v))) =
        [''02'', ''00''] @ fst (random_groups 4 v)"
      using prefixed_groups [of 4 "''02:00''" v] by (simp add: colon_hex_literals)
    ultimately show ?thesis by simp
  qed
  have roster: "list_all (\<lambda>h. colon_hex 6 (snd h) \<and> take 2 (split_colon (snd h)) = [''02'', ''00''])
     (hosts (fst (init_session hosts_count b w)))"
    unfolding init_session_roster list_all_iff using host by auto
  have att: "colon_hex 6 (''de:ad:be:ef'' @ '':'' @ join '':'' (fst (random_groups 2 v))) \<and>
      split_colon (''de:ad:be:ef'' @ '':'' @ join '':'' (fst (random_groups 2 v))) =
        [''de'', ''ad'', ''be'', ''ef''] @ fst (random_groups 2 v)" for v
  proof -
    have "colon_hex (4 + 2) (''de:ad:be:ef'' @ '':'' @ join '':'' (fst (random_groups 2 v)))"
      by (intro prefixed_colon_hex colon_hex_literals) simp
    moreover have "split_colon (''de:ad:be:ef'' @ '':'' @ join '':'' (fst (random_groups 2 v))) =
        [''de'', ''ad'', ''be'', ''ef''] @ fst (random_groups 2 v)"
      using prefixed_groups [of 2 "''de:ad:be:ef''" v] by (simp add: colon_hex_literals)
    ultimately show ?thesis by simp
  qed
  have spoof: "(let w2 = w\<lparr>random_reads := random_reads w + 2\<rparr>;
           victim = fst (hosts s ! (random_src w (Suc (random_reads w)) mod length (hosts s)));
           attacker_mac = ''de:ad:be:ef'' @ '':'' @ join '':'' (fst (random_groups 2 w2))
       in one_event_packets mode p s w =
            Inr ([(victim, attacker_mac, ''random spoof'')], snd (random_groups 2 w2)) \<and>
          one_event mode p s w =
            (case receive_arp victim attacker_mac ''random spoof'' (ctrl s)
                    (snd (random_groups 2 w2)) of
               (r, c', w') \<Rightarrow> Inr (s\<lparr>ctrl := c'\<rparr>, w')) \<and>
          colon_hex 6 attacker_mac \<and>
          split_colon attacker_mac = [''de'', ''ad'', ''be'', ''ef''] @ fst (random_groups 2 w2))"
    if "mode \<noteq> ''basic'' \<and> fst (random_random w) < p \<and> hosts s \<noteq> []"
    unfolding Let_def
    using that spoof_branch [of mode w p s] att [of "w\<lparr>random_reads := random_reads w + 2\<rparr>"]
    by (intro conjI) blast+
  from plain two init_session_roster [of hosts_count b w] roster spoof
    random_groups_length [of n w] random_groups_hex [of n w]
  show ?thesis by blast
qed

theorem identity_generator_shape_witness:
  "truthy (Some ''02:00'') \<and> colon_hex 2 (the (Some ''02:00'')) \<and> \<not> truthy None \<and>
   ''random'' \<noteq> ''basic'' \<and>
   fst (random_random
     \<lparr>clock = (\<lambda>k. 0), clock_reads = 0, random_src = (\<lambda>k. 7 * k + 3), random_reads = 0\<rparr>) < 0.5 \<and>
   colon_hex 6 (fst (random_mac (Some ''02:00'')
     \<lparr>clock = (\<lambda>k. 0), clock_reads = 0, random_src = (\<lambda>k. 7 * k + 3), random_reads = 0\<rparr>)) \<and>
   colon_hex 6 (fst (random_mac None
     \<lparr>clock = (\<lambda>k. 0), clock_reads = 0, random_src = (\<lambda>k. 7 * k + 3), random_reads = 0\<rparr>)) \<and>
   list_all (\<lambda>h. colon_hex 6 (snd h) \<and> take 2 (split_colon (snd h)) = [''02'', ''00''])
     (hosts (fst (init_session 2 True
        \<lparr>clock = (\<lambda>k. 0), clock_reads = 0, random_src = (\<lambda>k. 7 * k + 3), random_reads = 0\<rparr>))) \<and>
   colon_hex 6 (''de:ad:be:ef'' @ '':'' @ join '':'' (fst (random_groups 2
     \<lparr>clock = (\<lambda>k. 0), clock_reads = 0, random_src = (\<lambda>k. 7 * k + 3), random_reads = 2\<rparr>)))"
proof -
  let ?w = "\<lparr>clock = (\<lambda>k. 0), clock_reads = 0, random_src = (\<lambda>k. 7 * k + 3), random_reads = 0\<rparr>"
  let ?s = "\<lparr>ctrl = \<lparr>arp_table = [(''10.0.0.1'', ''02:00:00:00:00:01'')], blocked_macs = {},
                     block_on_detect = True, logs = []\<rparr>,
             hosts = [(''10.0.0.1'', ''02:00:00:00:00:01'')], started = True, logs_buf = []\<rparr>"
  have h1: "truthy (Some ''02:00'')" "colon_hex 2 (the (Some ''02:00''))" "\<not> truthy None"
    by (simp_all add: truthy_def colon_hex_literals)
  have h2: "''random'' \<noteq> ''basic''" "fst (random_random ?w) < 0.5" "hosts ?s \<noteq> []"
    by (simp_all add: random_random_def next_raw_def)
  have w2: "?w\<lparr>random_reads := random_reads ?w + 2\<rparr> =
      \<lparr>clock = (\<lambda>k. 0), clock_reads = 0, random_src = (\<lambda>k. 7 * k + 3), random_reads = 2\<rparr>"
    by simp
  note T = identity_generator_shape [where w = ?w and hosts_count = 2 and b = True
      and mode = "''random''" and p = "0.5" and s = ?s and n = 4]
  have a: "colon_hex 6 (fst (random_mac (Some ''02:00'') ?w))"
    using T [where prefix = "Some ''02:00''"] h1 by blast
  have b: "colon_hex 6 (fst (random_mac None ?w))"
    using T [where prefix = None] h1 by blast
  have c: "list_all (\<lambda>h. colon_hex 6 (snd h) \<and> take 2 (split_colon (snd h)) = [''02'', ''00''])
     (hosts (fst (init_session 2 True ?w)))"
    using T [where prefix = None] by blast
  have "colon_hex 6 (''de:ad:be:ef'' @ '':'' @ join '':''
          (fst (random_groups 2 (?w\<lparr>random_reads := random_reads ?w + 2\<rparr>))))"
    using T [where prefix = None] h2 unfolding Let_def by blast
  then have d: "colon_hex 6 (''de:ad:be:ef'' @ '':'' @ join '':'' (fst (random_groups 2
     \<lparr>clock = (\<lambda>k. 0), clock_reads = 0, random_src = (\<lambda>k. 7 * k + 3), random_reads = 2\<rparr>)))"
    unfolding w2 .
  from h1 h2(1,2) a b c d show ?thesis by (intro conjI)
qed

end
